theory Spec2Isabelle
  imports Complex_Main "HOL-Library.AList" "HOL-Library.Multiset" "HOL-Library.Log_Nat"
begin

section \<open>The float64 values of the scores\<close>

text \<open>
  Scores, percentiles, thresholds and score changes are Go \<^verbatim>\<open>float64\<close> values. A finite
  value is the rational number it denotes; negative zero, the two infinities and NaN are
  values of their own. Arithmetic rounds to the nearest representable value, ties to the
  even mantissa (IEEE 754 binary64, 53 bits of mantissa, exponents from -1022 to 1023).
\<close>

datatype float64 = Finite rat | NegZero | PosInf | NegInf | NaN

function pow2 :: "int \<Rightarrow> rat" where
  "pow2 k =
     (if k < 0 then 1 / pow2 (- k)
      else if k = 0 then 1
      else if even k then pow2 (k div 2) * pow2 (k div 2)
      else 2 * pow2 (k div 2) * pow2 (k div 2))"
  by pat_completeness auto
termination
  by (relation "measure (\<lambda>k. if k < 0 then nat (1 - 2 * k) else nat k)") auto

declare pow2.simps [simp del]

text \<open>The binary exponent \<open>e\<close> of a non-zero rational: \<open>2 ^ e \<le> \<bar>q\<bar> < 2 ^ (e + 1)\<close>.\<close>

definition exponent :: "rat \<Rightarrow> int" where
  "exponent q =
     (let (n, d) = quotient_of \<bar>q\<bar>;
          k = bitlen n - bitlen d
      in if pow2 k \<le> \<bar>q\<bar> then k else k - 1)"

definition round_even :: "rat \<Rightarrow> int" where
  "round_even x =
     (let f = \<lfloor>x\<rfloor>; d = x - of_int f
      in if d < 1 / 2 then f
         else if 1 / 2 < d then f + 1
         else if even f then f else f + 1)"

text \<open>
  The float64 nearest to a rational. The mantissa \<open>m\<close> counts units of \<open>2 ^ (e - 52)\<close>,
  where \<open>e\<close> is the exponent of \<open>q\<close> and at least -1022 (below, the values are subnormal).
  A result of magnitude \<open>2 ^ 1024\<close> or more is an infinity: \<open>9007199254740992\<close> is
  \<open>2 ^ 53\<close>.
\<close>

definition round64 :: "rat \<Rightarrow> float64" where
  "round64 q =
     (if q = 0 then Finite 0
      else
        let e = max (exponent q) (- 1022);
            m = round_even (q / pow2 (e - 52))
        in if 1024 \<le> e \<or> (e = 1023 \<and> 9007199254740992 \<le> \<bar>m\<bar>)
           then (if 0 < q then PosInf else NegInf)
           else if m = 0 \<and> q < 0 then NegZero
           else Finite (of_int m * pow2 (e - 52)))"

text \<open>Go's \<^verbatim>\<open>x - y\<close> on float64.\<close>

fun f64_sub :: "float64 \<Rightarrow> float64 \<Rightarrow> float64" where
  "f64_sub NaN y = NaN"
| "f64_sub x NaN = NaN"
| "f64_sub PosInf PosInf = NaN"
| "f64_sub PosInf y = PosInf"
| "f64_sub NegInf NegInf = NaN"
| "f64_sub NegInf y = NegInf"
| "f64_sub x PosInf = NegInf"
| "f64_sub x NegInf = PosInf"
| "f64_sub NegZero NegZero = Finite 0"
| "f64_sub NegZero (Finite y) = (if y = 0 then NegZero else round64 (- y))"
| "f64_sub (Finite x) NegZero = round64 x"
| "f64_sub (Finite x) (Finite y) = round64 (x - y)"

text \<open>
  Go's \<^verbatim>\<open>x > y\<close> on float64: false when either side is NaN; the two zeros are equal.
\<close>

fun rank :: "float64 \<Rightarrow> (int \<times> rat) option" where
  "rank NaN = None"
| "rank NegInf = Some (- 1, 0)"
| "rank NegZero = Some (0, 0)"
| "rank (Finite x) = Some (0, x)"
| "rank PosInf = Some (1, 0)"

definition f64_gt :: "float64 \<Rightarrow> float64 \<Rightarrow> bool" where
  "f64_gt x y =
     (case (rank x, rank y) of
        (Some (i, a), Some (j, b)) \<Rightarrow> j < i \<or> (i = j \<and> b < a)
      | _ \<Rightarrow> False)"

text \<open>
  \<^verbatim>\<open>strconv.FormatFloat(x, 'f', 2, 64)\<close>: the exact value rounded to two decimals
  (ties to even), the sign kept also when the digits are all zero.
\<close>

definition digit :: "nat \<Rightarrow> char" where
  "digit d = ''0123456789'' ! (d mod 10)"

fun digits :: "nat \<Rightarrow> string" where
  "digits n = (if n < 10 then [digit n] else digits (n div 10) @ [digit n])"

declare digits.simps [simp del]

fun FormatFloat_f2 :: "float64 \<Rightarrow> string" where
  "FormatFloat_f2 NaN = ''NaN''"
| "FormatFloat_f2 PosInf = ''+Inf''"
| "FormatFloat_f2 NegInf = ''-Inf''"
| "FormatFloat_f2 NegZero = ''-0.00''"
| "FormatFloat_f2 (Finite x) =
     (let n = nat (round_even (\<bar>x\<bar> * 100))
      in (if x < 0 then ''-'' else '''') @ digits (n div 100) @ ''.'' @
         [digit (n div 10), digit n])"

section \<open>The data model\<close>

text \<open>\<^verbatim>\<open>models.CVE\<close> and \<^verbatim>\<open>models.ScoreChange\<close>. A \<^verbatim>\<open>time.Time\<close> is an
  instant, here a number.\<close>

type_synonym Time = int

record CVE =
  ID :: string
  EPSSScore :: float64
  Percentile :: float64
  Date :: string

record ScoreChange =
  CVE :: string
  Date :: Time
  ScoreChange :: float64

text \<open>
  What \<^verbatim>\<open>json.Unmarshal\<close> stores in an \<^verbatim>\<open>interface{}\<close>: nil, a bool, a float64, a
  string, a \<^verbatim>\<open>[]interface{}\<close> or a \<^verbatim>\<open>map[string]interface{}\<close>. An object is the list
  of its members, read with \<^const>\<open>map_of\<close>.
\<close>

datatype json =
    JNull
  | JBool bool
  | JNumber float64
  | JString string
  | JArray "json list"
  | JObject "(string \<times> json) list"

text \<open>A request: the base URL and the query parameters added to it.\<close>

datatype URL = URL string "(string \<times> string) list"

text \<open>The errors the repository builds, one constructor for each \<^verbatim>\<open>fmt.Errorf\<close>
  (and one for the error of \<^verbatim>\<open>io.ReadAll\<close>, which is passed on as it is).\<close>

datatype error =
    InvalidBaseURL
  | FetchFailed URL
  | UnexpectedStatus nat URL
  | ReadBodyFailed
  | UnmarshalFailed
  | UnexpectedResponseType
  | MissingField string
  | ParseFieldFailed string
  | NoCVEFound string

text \<open>
  A Go function returning \<^verbatim>\<open>(T, error)\<close> returns both values: \<open>Returns v None\<close> is
  \<^verbatim>\<open>return v, nil\<close> and \<open>Returns v (Some e)\<close> is \<^verbatim>\<open>return v, e\<close>. A nil slice is the
  empty list, a nil pointer is \<open>None\<close>. \<open>Panics\<close> is a run-time panic, which no
  function of the repository recovers.
\<close>

datatype 'a outcome = Returns 'a "error option" | Panics

text \<open>The reply to \<^verbatim>\<open>http.Get\<close>: an error, or a status code and a body. Reading the
  body can fail; a body that was read is the JSON value it parses to, \<open>None\<close> when it is not
  valid JSON.\<close>

datatype body = ReadError | Body "json option"

datatype http_result = GetError | Response nat body

text \<open>
  What the standard library and the run time supply: \<^verbatim>\<open>url.Parse\<close> (whether it accepts
  the base URL), \<^verbatim>\<open>http.Get\<close>, \<^verbatim>\<open>strconv.ParseFloat\<close> (\<open>None\<close> when it returns an
  error), \<^verbatim>\<open>time.Now\<close>, \<^verbatim>\<open>AddDate(0, 0, d)\<close>, \<^verbatim>\<open>Format("2006-01-02")\<close>, the order
  in which \<^verbatim>\<open>range\<close> visits the entries of a map, and \<^verbatim>\<open>sort.Slice\<close>.
\<close>

record runtime =
  url_Parse :: "string \<Rightarrow> bool"
  http_Get :: "URL \<Rightarrow> http_result"
  ParseFloat :: "string \<Rightarrow> float64 option"
  time_Now :: Time
  AddDate :: "Time \<Rightarrow> int \<Rightarrow> Time"
  Format :: "Time \<Rightarrow> string"
  map_range :: "(string \<times> float64) list \<Rightarrow> (string \<times> float64) list"
  sort_Slice :: "(ScoreChange \<Rightarrow> ScoreChange \<Rightarrow> bool) \<Rightarrow> ScoreChange list \<Rightarrow> ScoreChange list"

record apiRepository =
  baseURL :: string

section \<open>Decoding a response\<close>

text \<open>\<^verbatim>\<open>item[k].(string)\<close> with the comma-ok form: the member is there and is a string.\<close>

definition string_field :: "(string \<times> json) list \<Rightarrow> string \<Rightarrow> string option" where
  "string_field item k = (case map_of item k of Some (JString s) \<Rightarrow> Some s | _ \<Rightarrow> None)"

definition convertSingleAPIResponseToCVE ::
  "runtime \<Rightarrow> (string \<times> json) list \<Rightarrow> CVE option \<times> error option" where
  "convertSingleAPIResponseToCVE rt item =
     (case string_field item ''cve'' of
        None \<Rightarrow> (None, Some (MissingField ''cve''))
      | Some cveID \<Rightarrow>
     (case string_field item ''epss'' of
        None \<Rightarrow> (None, Some (MissingField ''epss''))
      | Some epssScore \<Rightarrow>
     (case string_field item ''percentile'' of
        None \<Rightarrow> (None, Some (MissingField ''percentile''))
      | Some percentile \<Rightarrow>
     (case string_field item ''date'' of
        None \<Rightarrow> (None, Some (MissingField ''date''))
      | Some date \<Rightarrow>
     (case ParseFloat rt epssScore of
        None \<Rightarrow> (None, Some (ParseFieldFailed ''epss''))
      | Some epssFloat \<Rightarrow>
     (case ParseFloat rt percentile of
        None \<Rightarrow> (None, Some (ParseFieldFailed ''percentile''))
      | Some percentileFloat \<Rightarrow>
          (Some \<lparr>ID = cveID, EPSSScore = epssFloat, Percentile = percentileFloat,
                 Date = date\<rparr>, None)))))))"

text \<open>
  The loop over the elements of the \<^verbatim>\<open>data\<close> array. The type assertion
  \<^verbatim>\<open>item.(map[string]interface{})\<close> has no comma-ok form: an element that is not an object
  panics. The list \<open>cves\<close> holds the elements converted so far.
\<close>

fun convert_loop :: "runtime \<Rightarrow> json list \<Rightarrow> CVE list \<Rightarrow> CVE list outcome" where
  "convert_loop rt [] cves = Returns cves None"
| "convert_loop rt (JObject item # apiData) cves =
     (case convertSingleAPIResponseToCVE rt item of
        (_, Some err) \<Rightarrow> Returns [] (Some err)
      | (Some cve, None) \<Rightarrow> convert_loop rt apiData (cves @ [cve])
      | (None, None) \<Rightarrow> Panics)"
| "convert_loop rt (_ # apiData) cves = Panics"

definition convertAPIResponseToCVEDataArray :: "runtime \<Rightarrow> json \<Rightarrow> CVE list outcome" where
  "convertAPIResponseToCVEDataArray rt item =
     (case item of
        JObject data \<Rightarrow>
          (case map_of data ''data'' of
             Some (JArray apiData) \<Rightarrow> convert_loop rt apiData []
           | _ \<Rightarrow> Returns [] (Some UnexpectedResponseType))
      | _ \<Rightarrow> Returns [] (Some UnexpectedResponseType))"

definition convertAPIResponseToCVEData :: "runtime \<Rightarrow> json \<Rightarrow> CVE list outcome" where
  "convertAPIResponseToCVEData rt item =
     (case item of
        JObject data \<Rightarrow>
          (case map_of data ''data'' of
             Some (JArray apiData) \<Rightarrow> convert_loop rt apiData []
           | _ \<Rightarrow> Returns [] (Some UnexpectedResponseType))
      | _ \<Rightarrow> Returns [] (Some UnexpectedResponseType))"

section \<open>The repository\<close>

text \<open>
  \<^verbatim>\<open>buildURL\<close>: the parameters are added to the query of the base URL. \<^verbatim>\<open>Encode\<close> writes
  them sorted by key, so the list of a request is written in that order.
\<close>

definition buildURL ::
  "runtime \<Rightarrow> apiRepository \<Rightarrow> (string \<times> string) list \<Rightarrow> URL \<times> error option" where
  "buildURL rt r params =
     (if url_Parse rt (baseURL r) then (URL (baseURL r) params, None)
      else (URL [] [], Some InvalidBaseURL))"

text \<open>\<^verbatim>\<open>fetchData\<close>: the bytes of the body are the JSON value they parse to (\<open>None\<close>:
  they do not parse, as no bytes at all).\<close>

definition fetchData :: "runtime \<Rightarrow> URL \<Rightarrow> json option \<times> error option" where
  "fetchData rt url =
     (case http_Get rt url of
        GetError \<Rightarrow> (None, Some (FetchFailed url))
      | Response code b \<Rightarrow>
          if code \<noteq> 200 then (None, Some (UnexpectedStatus code url))
          else (case b of
                  ReadError \<Rightarrow> (None, Some ReadBodyFailed)
                | Body data \<Rightarrow> (data, None)))"

text \<open>
  \<^verbatim>\<open>json.Unmarshal\<close> into a \<^verbatim>\<open>map[string]interface{}\<close>: an object gives its members,
  \<^verbatim>\<open>null\<close> leaves the map nil (no member), any other value is an error.
\<close>

definition Unmarshal_map :: "json option \<Rightarrow> (string \<times> json) list option" where
  "Unmarshal_map data =
     (case data of
        Some (JObject m) \<Rightarrow> Some m
      | Some JNull \<Rightarrow> Some []
      | _ \<Rightarrow> None)"

definition GetCVEScore ::
  "runtime \<Rightarrow> apiRepository \<Rightarrow> string \<Rightarrow> string \<Rightarrow> CVE option outcome" where
  "GetCVEScore rt r cveID date =
     (let params = (''cve'', cveID) # (if date \<noteq> [] then [(''date'', date)] else [])
      in case buildURL rt r params of
           (_, Some err) \<Rightarrow> Returns None (Some err)
         | (url, None) \<Rightarrow>
      (case fetchData rt url of
           (_, Some err) \<Rightarrow> Returns None (Some err)
         | (None, None) \<Rightarrow> Returns None (Some UnmarshalFailed)
         | (Some result, None) \<Rightarrow>
      (case convertAPIResponseToCVEData rt result of
           Panics \<Rightarrow> Panics
         | Returns _ (Some err) \<Rightarrow> Returns None (Some err)
         | Returns cveData None \<Rightarrow>
             if length cveData = 0 then Returns None (Some (NoCVEFound cveID))
             else Returns (Some (cveData ! 0)) None)))"

definition GetCVEsAboveThreshold ::
  "runtime \<Rightarrow> apiRepository \<Rightarrow> float64 \<Rightarrow> string \<Rightarrow> CVE list outcome" where
  "GetCVEsAboveThreshold rt r threshold field =
     (let params = [(field @ ''-gt'', FormatFloat_f2 threshold)]
      in case buildURL rt r params of
           (_, Some err) \<Rightarrow> Returns [] (Some err)
         | (url, None) \<Rightarrow>
      (case fetchData rt url of
           (_, Some err) \<Rightarrow> Returns [] (Some err)
         | (None, None) \<Rightarrow> Returns [] (Some UnmarshalFailed)
         | (Some result, None) \<Rightarrow>
      (case convertAPIResponseToCVEDataArray rt result of
           Panics \<Rightarrow> Panics
         | Returns _ (Some err) \<Rightarrow> Returns [] (Some err)
         | Returns cves None \<Rightarrow> Returns cves None)))"

subsection \<open>The highest increases\<close>

text \<open>
  The body of the loop over the records of a day. \<open>scoreChangesMap\<close> is the Go map as the
  list of its entries, each key once: \<^const>\<open>map_of\<close> reads it and \<^const>\<open>AList.update\<close>
  writes it.
\<close>

definition scoreChanges_step ::
  "(string \<times> float64) list \<Rightarrow> CVE \<Rightarrow> (string \<times> float64) list" where
  "scoreChanges_step scoreChangesMap cve =
     (case map_of scoreChangesMap (ID cve) of
        Some initialScore \<Rightarrow>
          (let scoreChange = f64_sub (EPSSScore cve) initialScore
           in if f64_gt scoreChange initialScore
              then AList.update (ID cve) scoreChange scoreChangesMap
              else scoreChangesMap)
      | None \<Rightarrow> AList.update (ID cve) (EPSSScore cve) scoreChangesMap)"

text \<open>
  The fetch of one day (the body of the loop over the days, up to the loop over the
  records): the records of the day, and the requests passed to \<^verbatim>\<open>fetchData\<close>, each of
  which it logs.
\<close>

definition fetch_day ::
  "runtime \<Rightarrow> apiRepository \<Rightarrow> string \<Rightarrow> CVE list outcome \<times> URL list" where
  "fetch_day rt r date =
     (case buildURL rt r [(''date'', date)] of
        (_, Some err) \<Rightarrow> (Returns [] (Some err), [])
      | (url, None) \<Rightarrow>
     (case fetchData rt url of
        (_, Some err) \<Rightarrow> (Returns [] (Some err), [url])
      | (data, None) \<Rightarrow>
     (case Unmarshal_map data of
        None \<Rightarrow> (Returns [] (Some UnmarshalFailed), [url])
      | Some result \<Rightarrow>
     (case convertAPIResponseToCVEDataArray rt (JObject result) of
        Panics \<Rightarrow> (Panics, [url])
      | Returns _ (Some err) \<Rightarrow> (Returns [] (Some err), [url])
      | Returns cveList None \<Rightarrow> (Returns cveList None, [url])))))"

text \<open>
  The loop \<^verbatim>\<open>for i := 0; i <= days; i++\<close>, from \<open>i\<close> on. \<open>days\<close>, \<open>limit\<close> and the
  counter are Go ints, here unbounded integers: every step of the loop fetches a day, so
  the counter does not reach the end of its 64 bits.
\<close>

function days_loop ::
  "runtime \<Rightarrow> apiRepository \<Rightarrow> Time \<Rightarrow> int \<Rightarrow> int \<Rightarrow> (string \<times> float64) list \<Rightarrow> URL list \<Rightarrow>
     (string \<times> float64) list outcome \<times> URL list" where
  "days_loop rt r startDate days i scoreChangesMap fetched =
     (if i \<le> days then
        (case fetch_day rt r (Format rt (AddDate rt startDate i)) of
           (Panics, urls) \<Rightarrow> (Panics, fetched @ urls)
         | (Returns _ (Some err), urls) \<Rightarrow> (Returns [] (Some err), fetched @ urls)
         | (Returns cveList None, urls) \<Rightarrow>
             days_loop rt r startDate days (i + 1)
               (foldl scoreChanges_step scoreChangesMap cveList) (fetched @ urls))
      else (Returns scoreChangesMap None, fetched))"
  by pat_completeness auto
termination
  by (relation "measure (\<lambda>(rt, r, startDate, days, i, m, fetched). nat (days + 1 - i))") auto

declare days_loop.simps [simp del]

text \<open>
  \<^verbatim>\<open>GetHighestIncreases\<close>, with the requests it fetched. \<^verbatim>\<open>scoreChanges[:limit]\<close> panics
  when \<open>limit\<close> is negative.
\<close>

definition GetHighestIncreases ::
  "runtime \<Rightarrow> apiRepository \<Rightarrow> int \<Rightarrow> int \<Rightarrow> ScoreChange list outcome \<times> URL list" where
  "GetHighestIncreases rt r days limit =
     (let now = time_Now rt;
          startDate = AddDate rt now (- days)
      in case days_loop rt r startDate days 0 [] [] of
           (Panics, fetched) \<Rightarrow> (Panics, fetched)
         | (Returns _ (Some err), fetched) \<Rightarrow> (Returns [] (Some err), fetched)
         | (Returns scoreChangesMap None, fetched) \<Rightarrow>
             (let entries =
                    map (\<lambda>(cveID, scoreChange).
                           \<lparr>CVE = cveID, Date = now, ScoreChange = scoreChange\<rparr>)
                      (map_range rt scoreChangesMap);
                  scoreChanges =
                    sort_Slice rt (\<lambda>a b. f64_gt (ScoreChange a) (ScoreChange b)) entries
              in if limit < int (length scoreChanges)
                 then (if limit < 0 then (Panics, fetched)
                       else (Returns (take (nat limit) scoreChanges) None, fetched))
                 else (Returns scoreChanges None, fetched)))"

section \<open>A run time for the examples\<close>

text \<open>
  \<^verbatim>\<open>strconv.ParseFloat\<close> on the plain decimal literals (digits, then optionally a point
  and digits), where it returns the nearest float64, and on \<^verbatim>\<open>NaN\<close>, which it accepts
  too; every other string is refused here, so this function stands for \<^verbatim>\<open>ParseFloat\<close>
  in the examples only.
\<close>

definition digit_value :: "char \<Rightarrow> int option" where
  "digit_value c = map_of (zip ''0123456789'' [0, 1, 2, 3, 4, 5, 6, 7, 8, 9]) c"

fun digits_value :: "string \<Rightarrow> int \<Rightarrow> int option" where
  "digits_value [] acc = Some acc"
| "digits_value (c # cs) acc =
     (case digit_value c of None \<Rightarrow> None | Some d \<Rightarrow> digits_value cs (10 * acc + d))"

definition decimal_ParseFloat :: "string \<Rightarrow> float64 option" where
  "decimal_ParseFloat s =
     (let ip = takeWhile (\<lambda>c. c \<noteq> CHR ''.'') s;
          fp = drop (length ip + 1) s
      in if s = ''NaN'' then Some NaN
         else if ip = [] then None
         else (case (digits_value ip 0, digits_value fp 0) of
                 (Some a, Some b) \<Rightarrow>
                   Some (round64 (of_int a + of_int b / of_int (10 ^ length fp)))
               | _ \<Rightarrow> None))"

text \<open>
  The insertion sort that \<^verbatim>\<open>sort.Slice\<close> runs on a slice of at most twelve elements:
  each element in turn moves towards the front while it is less than the element before
  it. The part already sorted is held reversed, its last element first.
\<close>

fun insert_less :: "('a \<Rightarrow> 'a \<Rightarrow> bool) \<Rightarrow> 'a \<Rightarrow> 'a list \<Rightarrow> 'a list" where
  "insert_less lt x [] = [x]"
| "insert_less lt x (y # ys) =
     (if lt x y then y # insert_less lt x ys else x # y # ys)"

definition insertion_sort :: "('a \<Rightarrow> 'a \<Rightarrow> bool) \<Rightarrow> 'a list \<Rightarrow> 'a list" where
  "insertion_sort lt xs = rev (foldl (\<lambda>done x. insert_less lt x done) [] xs)"

text \<open>
  A server that holds a list of records (id, score, percentile, date, as the strings it
  sends) and answers a request with the records that pass the filters of the query:
  \<^verbatim>\<open>cve\<close>, \<^verbatim>\<open>date\<close> and \<^verbatim>\<open>epss-gt\<close>.
\<close>

type_synonym row = "string \<times> string \<times> string \<times> string"

definition record_json :: "row \<Rightarrow> json" where
  "record_json row =
     (case row of (c, e, p, d) \<Rightarrow>
        JObject [(''cve'', JString c), (''epss'', JString e), (''percentile'', JString p),
                 (''date'', JString d)])"

definition reply :: "json list \<Rightarrow> http_result" where
  "reply items = Response 200 (Body (Some (JObject [(''data'', JArray items)])))"

definition query :: "URL \<Rightarrow> string \<Rightarrow> string option" where
  "query url k = (case url of URL base params \<Rightarrow> map_of params k)"

definition passes :: "URL \<Rightarrow> row \<Rightarrow> bool" where
  "passes url row =
     (case row of (c, e, p, d) \<Rightarrow>
        (case query url ''cve'' of None \<Rightarrow> True | Some v \<Rightarrow> v = c) \<and>
        (case query url ''date'' of None \<Rightarrow> True | Some v \<Rightarrow> v = d) \<and>
        (case query url ''epss-gt'' of
           None \<Rightarrow> True
         | Some v \<Rightarrow>
             (case (decimal_ParseFloat e, decimal_ParseFloat v) of
                (Some score, Some threshold) \<Rightarrow> f64_gt score threshold
              | _ \<Rightarrow> False)))"

definition server_Get :: "row list \<Rightarrow> URL \<Rightarrow> http_result" where
  "server_Get rows url = reply (map record_json (filter (passes url) rows))"

text \<open>
  Two days: CVE-A moves from 0.0004 to 0.0009 and CVE-B stays at 0.0005.
\<close>

definition two_days :: "row list" where
  "two_days =
     [(''CVE-A'', ''0.0004'', ''0.13'', ''2024-10-17''),
      (''CVE-B'', ''0.0005'', ''0.15'', ''2024-10-17''),
      (''CVE-A'', ''0.0009'', ''0.20'', ''2024-10-18''),
      (''CVE-B'', ''0.0005'', ''0.15'', ''2024-10-18'')]"

text \<open>Three records of one day, with scores around 0.95.\<close>

definition high_scores :: "row list" where
  "high_scores =
     [(''CVE-C'', ''0.952'', ''0.99'', ''2024-10-18''),
      (''CVE-D'', ''0.97'', ''0.995'', ''2024-10-18''),
      (''CVE-E'', ''0.94'', ''0.98'', ''2024-10-18'')]"

text \<open>A day that lists one CVE twice, and a day with a score that is not a number.\<close>

definition repeated_id :: "row list" where
  "repeated_id =
     [(''CVE-A'', ''0.1'', ''0.90'', ''2024-10-18''),
      (''CVE-A'', ''0.9'', ''0.99'', ''2024-10-18'')]"

definition with_nan :: "row list" where
  "with_nan =
     [(''CVE-Y'', ''0.1'', ''0.90'', ''2024-10-18''),
      (''CVE-X'', ''NaN'', ''0.5'', ''2024-10-18''),
      (''CVE-Z'', ''0.2'', ''0.95'', ''2024-10-18'')]"

text \<open>A server whose \<^verbatim>\<open>data\<close> array holds \<^verbatim>\<open>null\<close>, and one whose reply for one date is
  the status 500.\<close>

definition null_element_Get :: "URL \<Rightarrow> http_result" where
  "null_element_Get url = reply [JNull]"


definition failing_Get :: "string \<Rightarrow> row list \<Rightarrow> URL \<Rightarrow> http_result" where
  "failing_Get date rows url =
     (if query url ''date'' = Some date then Response 500 (Body None)
      else server_Get rows url)"

text \<open>
  The run time of the examples: the clock reads day 1, which \<^verbatim>\<open>Format\<close> writes
  \<^verbatim>\<open>2024-10-18\<close>; \<^verbatim>\<open>range\<close> visits a map in the order given.
\<close>

definition day_Format :: "Time \<Rightarrow> string" where
  "day_Format t =
     (if t = 0 then ''2024-10-17'' else if t = 1 then ''2024-10-18'' else ''2024-10-19'')"

definition example ::
  "(URL \<Rightarrow> http_result) \<Rightarrow> ((string \<times> float64) list \<Rightarrow> (string \<times> float64) list) \<Rightarrow> runtime" where
  "example get order =
     \<lparr>url_Parse = (\<lambda>base. True), http_Get = get, ParseFloat = decimal_ParseFloat,
      time_Now = 1, AddDate = (\<lambda>t d. t + d), Format = day_Format,
      map_range = order, sort_Slice = insertion_sort\<rparr>"

definition epss_api :: apiRepository where
  "epss_api = \<lparr>baseURL = ''https://api.first.org/data/v1/epss''\<rparr>"

text \<open>The records and the score changes of the examples, with the float64 nearest to
  each decimal.\<close>

definition score_record :: "string \<Rightarrow> rat \<Rightarrow> rat \<Rightarrow> string \<Rightarrow> CVE" where
  "score_record c e p d = \<lparr>ID = c, EPSSScore = round64 e, Percentile = round64 p, Date = d\<rparr>"

definition change :: "string \<Rightarrow> rat \<Rightarrow> ScoreChange" where
  "change c q = \<lparr>CVE = c, Date = 1, ScoreChange = round64 q\<rparr>"

definition first_day :: "CVE list" where
  "first_day =
     [score_record ''CVE-A'' (4 / 10000) (13 / 100) ''2024-10-17'',
      score_record ''CVE-B'' (5 / 10000) (15 / 100) ''2024-10-17'']"

definition second_day :: "CVE list" where
  "second_day =
     [score_record ''CVE-A'' (9 / 10000) (20 / 100) ''2024-10-18'',
      score_record ''CVE-B'' (5 / 10000) (15 / 100) ''2024-10-18'']"

text \<open>A row whose score is not a number, between two rows that are in order.\<close>

definition broken_rows :: "row list" where
  "broken_rows =
     [(''CVE-C'', ''0.952'', ''0.99'', ''2024-10-18''),
      (''CVE-F'', ''high'', ''0.5'', ''2024-10-18''),
      (''CVE-D'', ''0.97'', ''0.995'', ''2024-10-18'')]"

section \<open>The notions of the specification\<close>

text \<open>
  An element of the \<^verbatim>\<open>data\<close> array carries the four fields: it is an object whose
  \<^verbatim>\<open>cve\<close>, \<^verbatim>\<open>epss\<close>, \<^verbatim>\<open>percentile\<close> and \<^verbatim>\<open>date\<close> members are strings, the
  second and the third of which \<^verbatim>\<open>ParseFloat\<close> accepts. It decodes to the record of
  these values.
\<close>

definition carries_fields :: "runtime \<Rightarrow> json \<Rightarrow> bool" where
  "carries_fields rt j =
     (case j of
        JObject item \<Rightarrow>
          string_field item ''cve'' \<noteq> None \<and>
          (case string_field item ''epss'' of
             Some s \<Rightarrow> ParseFloat rt s \<noteq> None | None \<Rightarrow> False) \<and>
          (case string_field item ''percentile'' of
             Some s \<Rightarrow> ParseFloat rt s \<noteq> None | None \<Rightarrow> False) \<and>
          string_field item ''date'' \<noteq> None
      | _ \<Rightarrow> False)"

definition decodes_to :: "runtime \<Rightarrow> json \<Rightarrow> CVE \<Rightarrow> bool" where
  "decodes_to rt j cve =
     (case j of
        JObject item \<Rightarrow>
          string_field item ''cve'' = Some (ID cve) \<and>
          (case string_field item ''epss'' of
             Some s \<Rightarrow> ParseFloat rt s = Some (EPSSScore cve) | None \<Rightarrow> False) \<and>
          (case string_field item ''percentile'' of
             Some s \<Rightarrow> ParseFloat rt s = Some (Percentile cve) | None \<Rightarrow> False) \<and>
          string_field item ''date'' = Some (CVE.Date cve)
      | _ \<Rightarrow> False)"

fun is_object :: "json \<Rightarrow> bool" where
  "is_object (JObject item) = True"
| "is_object j = False"

text \<open>The kinds of failure: not found, transport, decode.\<close>

fun is_not_found :: "error \<Rightarrow> bool" where
  "is_not_found (NoCVEFound cveID) = True"
| "is_not_found err = False"

fun is_transport_failure :: "error \<Rightarrow> bool" where
  "is_transport_failure InvalidBaseURL = True"
| "is_transport_failure (FetchFailed url) = True"
| "is_transport_failure (UnexpectedStatus code url) = True"
| "is_transport_failure ReadBodyFailed = True"
| "is_transport_failure err = False"

fun is_decode_failure :: "error \<Rightarrow> bool" where
  "is_decode_failure UnmarshalFailed = True"
| "is_decode_failure UnexpectedResponseType = True"
| "is_decode_failure (MissingField f) = True"
| "is_decode_failure (ParseFieldFailed f) = True"
| "is_decode_failure err = False"

text \<open>The requests of the point lookup and of the threshold query.\<close>

definition score_request :: "apiRepository \<Rightarrow> string \<Rightarrow> string \<Rightarrow> URL" where
  "score_request r cveID date =
     URL (baseURL r) ((''cve'', cveID) # (if date \<noteq> [] then [(''date'', date)] else []))"

definition threshold_request :: "apiRepository \<Rightarrow> float64 \<Rightarrow> string \<Rightarrow> URL" where
  "threshold_request r threshold field =
     URL (baseURL r) [(field @ ''-gt'', FormatFloat_f2 threshold)]"

text \<open>
  The window of \<^verbatim>\<open>GetHighestIncreases\<close>: the fetch of its day \<open>i\<close>, whether a fetch
  succeeded, the records it returned, and the records observed over the whole window, in
  the order in which the loop visits them.
\<close>

fun succeeded :: "'a outcome \<Rightarrow> bool" where
  "succeeded (Returns v None) = True"
| "succeeded other = False"

definition records_of :: "CVE list outcome \<Rightarrow> CVE list" where
  "records_of result = (case result of Returns cveList None \<Rightarrow> cveList | _ \<Rightarrow> [])"

definition day_fetch ::
  "runtime \<Rightarrow> apiRepository \<Rightarrow> int \<Rightarrow> int \<Rightarrow> CVE list outcome \<times> URL list" where
  "day_fetch rt r days i =
     fetch_day rt r (Format rt (AddDate rt (AddDate rt (time_Now rt) (- days)) i))"

definition observed :: "runtime \<Rightarrow> apiRepository \<Rightarrow> int \<Rightarrow> CVE list" where
  "observed rt r days =
     concat (map (\<lambda>i. records_of (fst (day_fetch rt r days i))) [0..days])"

text \<open>
  What is assumed of the run time. \<^verbatim>\<open>range\<close> visits every entry of a map once, in some
  order. \<^verbatim>\<open>sort.Slice\<close> permutes the slice, and the result is sorted when \<open>lt\<close> is a
  strict weak ordering of its elements (asymmetric, and incomparability is transitive),
  which is what its documentation asks of the \<^verbatim>\<open>less\<close> function.
\<close>

definition strict_weak_on :: "'a set \<Rightarrow> ('a \<Rightarrow> 'a \<Rightarrow> bool) \<Rightarrow> bool" where
  "strict_weak_on A lt =
     ((\<forall>x\<in>A. \<forall>y\<in>A. lt x y \<longrightarrow> \<not> lt y x) \<and>
      (\<forall>x\<in>A. \<forall>y\<in>A. \<forall>z\<in>A. lt x z \<longrightarrow> lt x y \<or> lt y z))"

definition range_contract :: "runtime \<Rightarrow> bool" where
  "range_contract rt = (\<forall>m. mset (map_range rt m) = mset m)"

definition sort_contract :: "runtime \<Rightarrow> bool" where
  "sort_contract rt =
     (\<forall>lt xs. mset (sort_Slice rt lt xs) = mset xs \<and>
        (strict_weak_on (set xs) lt \<longrightarrow>
           sorted_wrt (\<lambda>a b. \<not> lt b a) (sort_Slice rt lt xs)))"

text \<open>The orders of a list of score changes: each change exceeds the next, and no change
  is exceeded by a later one.\<close>

definition strictly_descending :: "ScoreChange list \<Rightarrow> bool" where
  "strictly_descending scoreChanges =
     sorted_wrt (\<lambda>a b. f64_gt (ScoreChange a) (ScoreChange b)) scoreChanges"

definition descending :: "ScoreChange list \<Rightarrow> bool" where
  "descending scoreChanges =
     sorted_wrt (\<lambda>a b. \<not> f64_gt (ScoreChange b) (ScoreChange a)) scoreChanges"

text \<open>The entries of the map as score changes, all with the date \<open>now\<close>.\<close>

definition changes_of :: "Time \<Rightarrow> (string \<times> float64) list \<Rightarrow> ScoreChange list" where
  "changes_of now m =
     map (\<lambda>(cveID, scoreChange). \<lparr>CVE = cveID, Date = now, ScoreChange = scoreChange\<rparr>) m"

section \<open>The run time of the examples keeps the contracts\<close>

lemma mset_insert_less: "mset (insert_less lt x ys) = add_mset x (mset ys)"
  by (induction ys) simp_all

lemma mset_insertion_sort_aux:
  "mset (foldl (\<lambda>done x. insert_less lt x done) acc xs) = mset acc + mset xs"
  by (induction xs arbitrary: acc) (simp_all add: mset_insert_less)

lemma mset_insertion_sort: "mset (insertion_sort lt xs) = mset xs"
  by (simp add: insertion_sort_def mset_insertion_sort_aux)

lemma set_insert_less: "set (insert_less lt x ys) = insert x (set ys)"
  by (induction ys) auto

lemma sorted_insert_less:
  assumes "strict_weak_on A lt" "x \<in> A" "set ys \<subseteq> A"
    and "sorted_wrt (\<lambda>a b. \<not> lt a b) ys"
  shows "sorted_wrt (\<lambda>a b. \<not> lt a b) (insert_less lt x ys)"
  using assms(3,4)
proof (induction ys)
  case Nil
  then show ?case by simp
next
  case (Cons y ys)
  from Cons.prems(1) have yA: "y \<in> A" by simp
  show ?case
  proof (cases "lt x y")
    case True
    from assms(1) True yA \<open>x \<in> A\<close> have "\<not> lt y x"
      unfolding strict_weak_on_def by blast
    with True Cons show ?thesis by (auto simp: set_insert_less)
  next
    case False
    have "\<not> lt x w" if "w \<in> set ys" for w
    proof
      assume xw: "lt x w"
      from that Cons.prems(1) have wA: "w \<in> A" by auto
      from assms(1) xw wA yA \<open>x \<in> A\<close> have "lt x y \<or> lt y w"
        unfolding strict_weak_on_def by blast
      moreover from that Cons.prems(2) have "\<not> lt y w" by simp
      ultimately show False using False by blast
    qed
    with False Cons.prems(2) show ?thesis by auto
  qed
qed

lemma sorted_insertion_sort_aux:
  assumes "strict_weak_on A lt"
  shows "set acc \<subseteq> A \<Longrightarrow> set xs \<subseteq> A \<Longrightarrow> sorted_wrt (\<lambda>a b. \<not> lt a b) acc \<Longrightarrow>
         sorted_wrt (\<lambda>a b. \<not> lt a b) (foldl (\<lambda>done x. insert_less lt x done) acc xs)"
proof (induction xs arbitrary: acc)
  case Nil
  then show ?case by simp
next
  case (Cons x xs)
  from Cons.prems have "sorted_wrt (\<lambda>a b. \<not> lt a b) (insert_less lt x acc)"
    by (intro sorted_insert_less [OF assms]) auto
  moreover from Cons.prems have "set (insert_less lt x acc) \<subseteq> A"
    by (auto simp: set_insert_less)
  ultimately show ?case using Cons.prems by (simp add: Cons.IH)
qed

lemma sorted_insertion_sort:
  "strict_weak_on (set xs) lt \<Longrightarrow> sorted_wrt (\<lambda>a b. \<not> lt b a) (insertion_sort lt xs)"
  unfolding insertion_sort_def sorted_wrt_rev
  by (rule sorted_insertion_sort_aux [where A = "set xs"]) simp_all

lemma example_contracts:
  "sort_contract (example get order)"
  "(\<And>m. mset (order m) = mset m) \<Longrightarrow> range_contract (example get order)"
  by (simp_all add: sort_contract_def range_contract_def example_def mset_insertion_sort
      sorted_insertion_sort)

section \<open>The order of the float64 values\<close>

lemma f64_gt_NaN [simp]: "\<not> f64_gt NaN y" "\<not> f64_gt x NaN"
  by (simp_all add: f64_gt_def split: option.splits)

lemma rank_None: "(rank x = None) = (x = NaN)"
  by (cases x) simp_all

lemma f64_gt_asym: "f64_gt x y \<Longrightarrow> \<not> f64_gt y x"
  by (auto simp: f64_gt_def split: option.splits)

lemma f64_gt_cotrans: "f64_gt x z \<Longrightarrow> y \<noteq> NaN \<Longrightarrow> f64_gt x y \<or> f64_gt y z"
  by (cases "rank y") (auto simp: f64_gt_def rank_None split: option.splits)

lemma strict_weak_changes:
  "\<forall>a\<in>A. ScoreChange a \<noteq> NaN \<Longrightarrow>
   strict_weak_on A (\<lambda>a b. f64_gt (ScoreChange a) (ScoreChange b))"
  unfolding strict_weak_on_def using f64_gt_asym f64_gt_cotrans by blast

section \<open>The accumulator of the score changes\<close>

lemma map_of_step:
  "map_of (scoreChanges_step m cve) k =
     (if k = ID cve then
        (case map_of m (ID cve) of
           None \<Rightarrow> Some (EPSSScore cve)
         | Some stored \<Rightarrow>
             Some (if f64_gt (f64_sub (EPSSScore cve) stored) stored
                   then f64_sub (EPSSScore cve) stored else stored))
      else map_of m k)"
  by (simp add: scoreChanges_step_def Let_def update_conv' split: option.splits)

lemma keys_step: "fst ` set (scoreChanges_step m cve) = insert (ID cve) (fst ` set m)"
proof (cases "map_of m (ID cve)")
  case None
  then show ?thesis by (simp add: scoreChanges_step_def dom_update)
next
  case (Some v)
  then have "ID cve \<in> fst ` set m" by (auto dest!: map_of_SomeD intro: rev_image_eqI)
  with Some show ?thesis by (auto simp: scoreChanges_step_def Let_def dom_update)
qed

lemma distinct_step:
  "distinct (map fst m) \<Longrightarrow> distinct (map fst (scoreChanges_step m cve))"
  by (simp add: scoreChanges_step_def Let_def distinct_update split: option.splits)

lemma keys_foldl:
  "fst ` set (foldl scoreChanges_step m cves) = fst ` set m \<union> ID ` set cves"
  by (induction cves arbitrary: m) (auto simp: keys_step)

lemma distinct_foldl:
  "distinct (map fst m) \<Longrightarrow> distinct (map fst (foldl scoreChanges_step m cves))"
  by (induction cves arbitrary: m) (auto simp: distinct_step)

lemma map_of_None_keys: "(map_of m k = None) = (k \<notin> fst ` set m)"
  by (simp add: map_of_eq_None_iff)

lemma foldl_foldl_concat: "foldl (foldl f) a xss = foldl f a (concat xss)"
  by (induction xss arbitrary: a) simp_all

section \<open>Decoding\<close>

lemma convertSingle_cases:
  "(\<exists>cve. convertSingleAPIResponseToCVE rt item = (Some cve, None) \<and> decodes_to rt (JObject item) cve
       \<and> carries_fields rt (JObject item)) \<or>
   (\<exists>err. convertSingleAPIResponseToCVE rt item = (None, Some err) \<and> \<not> carries_fields rt (JObject item))"
  by (auto simp: convertSingleAPIResponseToCVE_def carries_fields_def decodes_to_def
      split: option.splits)

lemma convert_loop_ok:
  "\<forall>j\<in>set items. carries_fields rt j \<Longrightarrow>
   \<exists>cs. convert_loop rt items acc = Returns (acc @ cs) None \<and> list_all2 (decodes_to rt) items cs"
proof (induction items arbitrary: acc)
  case Nil
  then show ?case by simp
next
  case (Cons j items)
  from Cons.prems obtain item where j: "j = JObject item"
    by (cases j) (auto simp: carries_fields_def)
  from Cons.prems j convertSingle_cases [of rt item]
  obtain cve where c: "convertSingleAPIResponseToCVE rt item = (Some cve, None)"
    "decodes_to rt (JObject item) cve" by auto
  from Cons.IH [of "acc @ [cve]"] Cons.prems
  obtain cs where "convert_loop rt items (acc @ [cve]) = Returns ((acc @ [cve]) @ cs) None"
    "list_all2 (decodes_to rt) items cs" by auto
  with j c show ?case by (intro exI [of _ "cve # cs"]) simp
qed

lemma convert_loop_bad:
  "\<exists>j\<in>set items. \<not> carries_fields rt j \<Longrightarrow>
   convert_loop rt items acc = Panics \<or> (\<exists>err. convert_loop rt items acc = Returns [] (Some err))"
proof (induction items arbitrary: acc)
  case Nil
  then show ?case by simp
next
  case (Cons j items)
  show ?case
  proof (cases j)
    case (JObject item)
    from convertSingle_cases [of rt item] show ?thesis
    proof (elim disjE exE conjE)
      fix cve assume c: "convertSingleAPIResponseToCVE rt item = (Some cve, None)"
        and "carries_fields rt (JObject item)"
      with Cons.prems JObject have "\<exists>j\<in>set items. \<not> carries_fields rt j" by auto
      from Cons.IH [OF this, of "acc @ [cve]"] c JObject show ?thesis by simp
    next
      fix err assume "convertSingleAPIResponseToCVE rt item = (None, Some err)"
      with JObject show ?thesis by simp
    qed
  qed simp_all
qed

lemma convert_loop_bad_objects:
  "\<exists>j\<in>set items. \<not> carries_fields rt j \<Longrightarrow> \<forall>j\<in>set items. is_object j \<Longrightarrow>
   \<exists>err. convert_loop rt items acc = Returns [] (Some err)"
proof (induction items arbitrary: acc)
  case Nil
  then show ?case by simp
next
  case (Cons j items)
  from Cons.prems(2) obtain item where j: "j = JObject item" by (cases j) auto
  from convertSingle_cases [of rt item] show ?case
  proof (elim disjE exE conjE)
    fix cve assume c: "convertSingleAPIResponseToCVE rt item = (Some cve, None)"
      and "carries_fields rt (JObject item)"
    with Cons.prems j have "\<exists>j\<in>set items. \<not> carries_fields rt j" by auto
    from Cons.IH [OF this, of "acc @ [cve]"] Cons.prems(2) c j show ?thesis by simp
  next
    fix err assume "convertSingleAPIResponseToCVE rt item = (None, Some err)"
    with j show ?thesis by simp
  qed
qed

text \<open>
  Decoding a response whose \<^verbatim>\<open>data\<close> member is an array succeeds exactly when every
  element carries the \<^verbatim>\<open>cve\<close>, \<^verbatim>\<open>epss\<close>, \<^verbatim>\<open>percentile\<close> and \<^verbatim>\<open>date\<close> fields as
  strings with the two numbers accepted by \<^verbatim>\<open>ParseFloat\<close>, and it then returns the
  records of the elements, in order. If an element lacks a field or has a number that
  does not parse, no list is returned: when all elements are objects the result is an
  error with the nil list.
\<close>

theorem decode_all_or_nothing:
  assumes "map_of data ''data'' = Some (JArray apiData)"
  shows "((\<forall>j\<in>set apiData. carries_fields rt j) \<longrightarrow>
            (\<exists>cves. convertAPIResponseToCVEDataArray rt (JObject data) = Returns cves None \<and>
                    list_all2 (decodes_to rt) apiData cves)) \<and>
         ((\<exists>j\<in>set apiData. \<not> carries_fields rt j) \<longrightarrow>
            convertAPIResponseToCVEDataArray rt (JObject data) = Panics \<or>
            (\<exists>err. convertAPIResponseToCVEDataArray rt (JObject data) = Returns [] (Some err))) \<and>
         ((\<exists>j\<in>set apiData. \<not> carries_fields rt j) \<and> (\<forall>j\<in>set apiData. is_object j) \<longrightarrow>
            (\<exists>err. convertAPIResponseToCVEDataArray rt (JObject data) = Returns [] (Some err)))"
  using assms convert_loop_ok [of apiData rt "[]"] convert_loop_bad [of apiData rt "[]"]
    convert_loop_bad_objects [of apiData rt "[]"]
  by (simp add: convertAPIResponseToCVEDataArray_def)

section \<open>The point lookup\<close>

lemma fetchData_error:
  "fetchData rt url = (data, Some err) \<Longrightarrow> data = None \<and> is_transport_failure err"
  by (auto simp: fetchData_def split: http_result.splits body.splits if_splits)

lemma convertSingle_error:
  "convertSingleAPIResponseToCVE rt item = (c, Some err) \<Longrightarrow> c = None \<and> is_decode_failure err"
  by (auto simp: convertSingleAPIResponseToCVE_def split: option.splits)

lemma convert_loop_error:
  "convert_loop rt items acc = Returns cves (Some err) \<Longrightarrow> cves = [] \<and> is_decode_failure err"
proof (induction rt items acc rule: convert_loop.induct)
  case (2 rt item apiData cves)
  then show ?case
    by (auto split: prod.splits option.splits dest: convertSingle_error)
qed simp_all

lemma convertData_error:
  "convertAPIResponseToCVEData rt item = Returns cves (Some err) \<Longrightarrow>
     cves = [] \<and> is_decode_failure err"
  by (auto simp: convertAPIResponseToCVEData_def split: json.splits option.splits
      dest: convert_loop_error)

lemma convertDataArray_error:
  "convertAPIResponseToCVEDataArray rt item = Returns cves (Some err) \<Longrightarrow>
     cves = [] \<and> is_decode_failure err"
  by (auto simp: convertAPIResponseToCVEDataArray_def split: json.splits option.splits
      dest: convert_loop_error)

lemma not_found_exclusive:
  "is_transport_failure err \<Longrightarrow> \<not> is_not_found err"
  "is_decode_failure err \<Longrightarrow> \<not> is_not_found err"
  by (cases err; simp)+

lemma convert_loop_decodes:
  "convert_loop rt items acc = Returns cs None \<Longrightarrow>
   \<exists>cs'. cs = acc @ cs' \<and> list_all2 (decodes_to rt) items cs'"
proof (induction items arbitrary: acc)
  case Nil
  then show ?case by simp
next
  case (Cons j items)
  show ?case
  proof (cases j)
    case (JObject item)
    from convertSingle_cases [of rt item] show ?thesis
    proof (elim disjE exE conjE)
      fix cve assume c: "convertSingleAPIResponseToCVE rt item = (Some cve, None)"
        and d: "decodes_to rt (JObject item) cve"
      with Cons.prems JObject
      have "convert_loop rt items (acc @ [cve]) = Returns cs None" by simp
      from Cons.IH [OF this] obtain cs' where "cs = (acc @ [cve]) @ cs'"
        "list_all2 (decodes_to rt) items cs'" by blast
      with d JObject show ?thesis by (intro exI [of _ "cve # cs'"]) simp
    next
      fix err assume "convertSingleAPIResponseToCVE rt item = (None, Some err)"
      with Cons.prems JObject show ?thesis by simp
    qed
  qed (use Cons.prems in simp_all)
qed

lemma convertData_array:
  "map_of data ''data'' = Some (JArray apiData) \<Longrightarrow>
   convertAPIResponseToCVEData rt (JObject data) = convert_loop rt apiData []"
  by (simp add: convertAPIResponseToCVEData_def)

lemma convertData_empty:
  "(convertAPIResponseToCVEData rt result = Returns [] None) =
     (\<exists>data. result = JObject data \<and> map_of data ''data'' = Some (JArray []))"
proof
  assume a: "convertAPIResponseToCVEData rt result = Returns [] None"
  then obtain data apiData where r: "result = JObject data"
    "map_of data ''data'' = Some (JArray apiData)"
    "convert_loop rt apiData [] = Returns [] None"
    by (auto simp: convertAPIResponseToCVEData_def split: json.splits option.splits)
  from convert_loop_decodes [OF r(3)] have "apiData = []" by simp
  with r show "\<exists>data. result = JObject data \<and> map_of data ''data'' = Some (JArray [])"
    by simp
next
  assume "\<exists>data. result = JObject data \<and> map_of data ''data'' = Some (JArray [])"
  then show "convertAPIResponseToCVEData rt result = Returns [] None"
    by (auto simp: convertAPIResponseToCVEData_def)
qed

lemma GetCVEScore_fetched:
  assumes "url_Parse rt (baseURL r)"
    and "fetchData rt (score_request r cveID date) = (Some (JObject data), None)"
    and "map_of data ''data'' = Some (JArray apiData)"
  shows "GetCVEScore rt r cveID date =
           (case convert_loop rt apiData [] of
              Panics \<Rightarrow> Panics
            | Returns cveData (Some err) \<Rightarrow> Returns None (Some err)
            | Returns cveData None \<Rightarrow>
                if cveData = [] then Returns None (Some (NoCVEFound cveID))
                else Returns (Some (hd cveData)) None)"
proof -
  have "cveData ! 0 = hd cveData" if "cveData \<noteq> []" for cveData :: "CVE list"
    using that by (cases cveData) simp_all
  with assms show ?thesis
    by (simp add: GetCVEScore_def buildURL_def score_request_def Let_def
        convertData_array split: outcome.splits option.splits)
qed

text \<open>
  Claim C7. When the request of the point lookup is built and answered with a JSON object
  whose \<^verbatim>\<open>data\<close> member is an array: if the array is empty, \<^verbatim>\<open>GetCVEScore\<close> returns the
  not-found error and no record; if it is not empty and its elements carry their fields,
  it returns the record of the first element and no error; and a non-empty array is
  never answered with the not-found error (an error is then a decode failure). An error
  always comes with the nil record; it is the not-found error exactly when the request
  was built and the body fetched holds the empty \<^verbatim>\<open>data\<close> array, so no transport failure
  and no decode failure is ever reported as not found.
\<close>

theorem point_score_not_found:
  "(url_Parse rt (baseURL r) \<and>
    fetchData rt (score_request r cveID date) = (Some (JObject data), None) \<and>
    map_of data ''data'' = Some (JArray apiData) \<longrightarrow>
      (apiData = [] \<longrightarrow>
         GetCVEScore rt r cveID date = Returns None (Some (NoCVEFound cveID))) \<and>
      (apiData \<noteq> [] \<and> (\<forall>j\<in>set apiData. carries_fields rt j) \<longrightarrow>
         (\<exists>cve. GetCVEScore rt r cveID date = Returns (Some cve) None \<and>
                decodes_to rt (hd apiData) cve)) \<and>
      (apiData \<noteq> [] \<longrightarrow>
         (\<forall>w e. GetCVEScore rt r cveID date = Returns w (Some e) \<longrightarrow>
            is_decode_failure e \<and> \<not> is_not_found e))) \<and>
   (GetCVEScore rt r cveID date = Returns v (Some err) \<longrightarrow>
      v = None \<and>
      (is_not_found err \<or> is_transport_failure err \<or> is_decode_failure err) \<and>
      (is_not_found err \<longrightarrow> \<not> is_transport_failure err \<and> \<not> is_decode_failure err) \<and>
      is_not_found err =
        (url_Parse rt (baseURL r) \<and>
         (\<exists>data. fetchData rt (score_request r cveID date) = (Some (JObject data), None) \<and>
                 map_of data ''data'' = Some (JArray [])))) \<and>
   (GetCVEScore rt r cveID date = Returns v None \<longrightarrow> v \<noteq> None)"
proof (intro conjI impI)
  assume a: "url_Parse rt (baseURL r) \<and>
    fetchData rt (score_request r cveID date) = (Some (JObject data), None) \<and>
    map_of data ''data'' = Some (JArray apiData)"
  then have g: "GetCVEScore rt r cveID date =
           (case convert_loop rt apiData [] of
              Panics \<Rightarrow> Panics
            | Returns cveData (Some err) \<Rightarrow> Returns None (Some err)
            | Returns cveData None \<Rightarrow>
                if cveData = [] then Returns None (Some (NoCVEFound cveID))
                else Returns (Some (hd cveData)) None)"
    using GetCVEScore_fetched [of rt r cveID date data apiData] by blast
  show "GetCVEScore rt r cveID date = Returns None (Some (NoCVEFound cveID))"
    if "apiData = []"
    using g that by simp
  show "\<exists>cve. GetCVEScore rt r cveID date = Returns (Some cve) None \<and>
                decodes_to rt (hd apiData) cve"
    if "apiData \<noteq> [] \<and> (\<forall>j\<in>set apiData. carries_fields rt j)"
  proof -
    from that convert_loop_ok [of apiData rt "[]"]
    obtain cs where cs: "convert_loop rt apiData [] = Returns cs None"
      "list_all2 (decodes_to rt) apiData cs" by auto
    with that obtain j js c cs' where "apiData = j # js" "cs = c # cs'" "decodes_to rt j c"
      by (cases apiData; cases cs) auto
    with g cs show ?thesis by simp
  qed
  show "\<forall>w e. GetCVEScore rt r cveID date = Returns w (Some e) \<longrightarrow>
            is_decode_failure e \<and> \<not> is_not_found e"
    if ne: "apiData \<noteq> []"
  proof (intro allI impI)
    fix w e assume r: "GetCVEScore rt r cveID date = Returns w (Some e)"
    show "is_decode_failure e \<and> \<not> is_not_found e"
    proof (cases "convert_loop rt apiData []")
      case (Returns cs eo)
      show ?thesis
      proof (cases eo)
        case None
        with Returns convert_loop_decodes [of rt apiData "[]" cs] ne
        have "cs \<noteq> []" by auto
        with g r Returns None show ?thesis by simp
      next
        case (Some e')
        with Returns convert_loop_error [of rt apiData "[]" cs e']
        have "is_decode_failure e'" by simp
        moreover from g r Returns Some have "e = e'" by simp
        ultimately show ?thesis using not_found_exclusive(2) by blast
      qed
    next
      case Panics
      with g r show ?thesis by simp
    qed
  qed
next
  assume g: "GetCVEScore rt r cveID date = Returns v (Some err)"
  then show "v = None"
    by (auto simp: GetCVEScore_def buildURL_def Let_def
        split: if_splits prod.splits option.splits outcome.splits)
  from g show "is_not_found err \<or> is_transport_failure err \<or> is_decode_failure err"
    by (auto simp: GetCVEScore_def buildURL_def Let_def
        split: if_splits prod.splits option.splits outcome.splits
        dest: fetchData_error convertData_error)
  show "\<not> is_transport_failure err" "\<not> is_decode_failure err" if "is_not_found err"
    using that by (cases err; simp)+
  from g have "is_not_found err =
        (url_Parse rt (baseURL r) \<and>
         (\<exists>result. fetchData rt (score_request r cveID date) = (Some result, None) \<and>
                   convertAPIResponseToCVEData rt result = Returns [] None))"
    by (auto simp: GetCVEScore_def buildURL_def Let_def score_request_def
        split: if_splits prod.splits option.splits outcome.splits
        dest: fetchData_error convertData_error not_found_exclusive)
  then show "is_not_found err =
        (url_Parse rt (baseURL r) \<and>
         (\<exists>data. fetchData rt (score_request r cveID date) = (Some (JObject data), None) \<and>
                 map_of data ''data'' = Some (JArray [])))"
    unfolding convertData_empty by blast
next
  assume "GetCVEScore rt r cveID date = Returns v None"
  then show "v \<noteq> None"
    by (auto simp: GetCVEScore_def buildURL_def Let_def
        split: if_splits prod.splits option.splits outcome.splits)
qed

section \<open>The loop over the days\<close>

lemma succeeded_iff: "succeeded result = (\<exists>v. result = Returns v None)"
  by (cases result rule: succeeded.cases) simp_all

lemma records_of_Returns [simp]: "records_of (Returns l None) = l"
  by (simp add: records_of_def)

lemma days_loop_ok:
  assumes "\<And>j. i \<le> j \<Longrightarrow> j \<le> days \<Longrightarrow>
             succeeded (fst (fetch_day rt r (Format rt (AddDate rt s j))))"
  shows "days_loop rt r s days i m fetched =
           (Returns (foldl scoreChanges_step m
               (concat (map (\<lambda>j. records_of (fst (fetch_day rt r (Format rt (AddDate rt s j)))))
                  [i..days]))) None,
            fetched @ concat (map (\<lambda>j. snd (fetch_day rt r (Format rt (AddDate rt s j)))) [i..days]))"
  using assms
proof (induction "nat (days + 1 - i)" arbitrary: i m fetched)
  case 0
  then have "\<not> i \<le> days" by simp
  then show ?case by (simp add: days_loop.simps [of rt r s days i])
next
  case (Suc n)
  then have le: "i \<le> days" by simp
  from Suc.prems [of i] le obtain l u
    where f: "fetch_day rt r (Format rt (AddDate rt s i)) = (Returns l None, u)"
    by (cases "fetch_day rt r (Format rt (AddDate rt s i))") (auto simp: succeeded_iff)
  have n: "n = nat (days + 1 - (i + 1))" using Suc.hyps(2) by simp
  have "days_loop rt r s days (i + 1) (foldl scoreChanges_step m l) (fetched @ u) =
          (Returns (foldl scoreChanges_step (foldl scoreChanges_step m l)
               (concat (map (\<lambda>j. records_of (fst (fetch_day rt r (Format rt (AddDate rt s j)))))
                  [i + 1..days]))) None,
            (fetched @ u) @ concat (map (\<lambda>j. snd (fetch_day rt r (Format rt (AddDate rt s j)))) [i + 1..days]))"
    by (rule Suc.hyps(1) [OF n]) (simp add: Suc.prems)
  with le f show ?case
    by (simp add: days_loop.simps [of rt r s days i] upto_rec1 [of i days])
qed

lemma days_loop_fails:
  assumes "i \<le> j" "j \<le> days"
    and "\<And>k. i \<le> k \<Longrightarrow> k < j \<Longrightarrow>
           succeeded (fst (fetch_day rt r (Format rt (AddDate rt s k))))"
    and "\<not> succeeded (fst (fetch_day rt r (Format rt (AddDate rt s j))))"
  shows "fst (days_loop rt r s days i m fetched) =
           (case fst (fetch_day rt r (Format rt (AddDate rt s j))) of
              Panics \<Rightarrow> Panics | Returns l err \<Rightarrow> Returns [] err)"
  using assms
proof (induction "nat (j - i)" arbitrary: i m fetched)
  case 0
  then have ij: "i = j" by simp
  obtain res u where f: "fetch_day rt r (Format rt (AddDate rt s j)) = (res, u)"
    by (cases "fetch_day rt r (Format rt (AddDate rt s j))")
  with "0.prems"(4) have "\<not> succeeded res" by simp
  then show ?case using f "0.prems"(2) ij
    by (cases res rule: succeeded.cases) (simp_all add: days_loop.simps [of rt r s days j])
next
  case (Suc n)
  then have lt: "i < j" by simp
  with Suc.prems have le: "i \<le> days" by simp
  from Suc.prems(3) [of i] lt obtain l u
    where f: "fetch_day rt r (Format rt (AddDate rt s i)) = (Returns l None, u)"
    by (cases "fetch_day rt r (Format rt (AddDate rt s i))") (auto simp: succeeded_iff)
  have n: "n = nat (j - (i + 1))" using Suc.hyps(2) by simp
  have "fst (days_loop rt r s days (i + 1) (foldl scoreChanges_step m l) (fetched @ u)) =
           (case fst (fetch_day rt r (Format rt (AddDate rt s j))) of
              Panics \<Rightarrow> Panics | Returns l err \<Rightarrow> Returns [] err)"
    using lt Suc.prems by (intro Suc.hyps(1) [OF n]) simp_all
  with le f show ?case by (simp add: days_loop.simps [of rt r s days i])
qed

lemma days_loop_success:
  assumes "fst (days_loop rt r s days i m fetched) = Returns m' None" "i \<le> j" "j \<le> days"
  shows "succeeded (fst (fetch_day rt r (Format rt (AddDate rt s j))))"
  using assms
proof (induction "nat (j - i)" arbitrary: i m fetched)
  case 0
  then have ij: "i = j" by simp
  obtain res u where f: "fetch_day rt r (Format rt (AddDate rt s j)) = (res, u)"
    by (cases "fetch_day rt r (Format rt (AddDate rt s j))")
  show ?case using "0.prems"(1,3) f unfolding ij
    by (cases res rule: succeeded.cases) (simp_all add: days_loop.simps [of rt r s days j])
next
  case (Suc n)
  then have lt: "i < j" by simp
  with Suc.prems have le: "i \<le> days" by simp
  obtain res u where f: "fetch_day rt r (Format rt (AddDate rt s i)) = (res, u)"
    by (cases "fetch_day rt r (Format rt (AddDate rt s i))")
  have n: "n = nat (j - (i + 1))" using Suc.hyps(2) by simp
  show ?case
  proof (cases "succeeded res")
    case True
    then obtain l where "res = Returns l None" by (auto simp: succeeded_iff)
    with Suc.prems(1) le f
    have "fst (days_loop rt r s days (i + 1) (foldl scoreChanges_step m l) (fetched @ u)) =
            Returns m' None"
      by (simp add: days_loop.simps [of rt r s days i])
    from Suc.hyps(1) [OF n this] lt Suc.prems(3) show ?thesis by simp
  next
    case False
    with Suc.prems(1) le f show ?thesis
      by (cases res rule: succeeded.cases) (simp_all add: days_loop.simps [of rt r s days i])
  qed
qed

lemma days_loop_error:
  "fst (days_loop rt r s days i m fetched) = Returns x (Some e) \<Longrightarrow> x = []"
proof (induction "nat (days + 1 - i)" arbitrary: i m fetched)
  case 0
  then have "\<not> i \<le> days" by simp
  with "0.prems" show ?case by (simp add: days_loop.simps [of rt r s days i])
next
  case (Suc n)
  then have le: "i \<le> days" by simp
  obtain res u where f: "fetch_day rt r (Format rt (AddDate rt s i)) = (res, u)"
    by (cases "fetch_day rt r (Format rt (AddDate rt s i))")
  have n: "n = nat (days + 1 - (i + 1))" using Suc.hyps(2) by simp
  show ?case
  proof (cases "succeeded res")
    case True
    then obtain l where "res = Returns l None" by (auto simp: succeeded_iff)
    with Suc.prems le f
    have "fst (days_loop rt r s days (i + 1) (foldl scoreChanges_step m l) (fetched @ u)) =
            Returns x (Some e)"
      by (simp add: days_loop.simps [of rt r s days i])
    from Suc.hyps(1) [OF n this] show ?thesis .
  next
    case False
    with Suc.prems le f show ?thesis
      by (cases res rule: succeeded.cases) (simp_all add: days_loop.simps [of rt r s days i])
  qed
qed

lemma days_loop_window:
  assumes "\<forall>j\<in>set [0..n]. succeeded (fst (day_fetch rt r n j))"
  shows "fst (days_loop rt r (AddDate rt (time_Now rt) (- n)) n 0 [] []) =
           Returns (foldl (foldl scoreChanges_step) []
                      (map (\<lambda>j. records_of (fst (day_fetch rt r n j))) [0..n])) None"
proof -
  have "succeeded (fst (fetch_day rt r
          (Format rt (AddDate rt (AddDate rt (time_Now rt) (- n)) j))))"
    if "0 \<le> j" "j \<le> n" for j
    using assms that by (simp add: day_fetch_def)
  from days_loop_ok [of 0 n rt r "AddDate rt (time_Now rt) (- n)" "[]" "[]", OF this]
  show ?thesis by (simp add: foldl_foldl_concat day_fetch_def)
qed

text \<open>
  Claim C1. When every day of the window is fetched, the loop of \<^verbatim>\<open>GetHighestIncreases\<close>
  folds the records of the days, day after day and record after record, into one map from
  CVE id to a value. For every sequence of per-day record lists and every record \<open>cve\<close> in
  it, with \<open>seen\<close> the records before it: the id has no entry yet exactly when no record
  seen so far carries it (the first sighting), and then the entry is seeded with the score
  of the record, not with zero; when the id has an entry \<open>stored\<close>, the difference
  \<open>score - stored\<close> replaces it if and only if it exceeds \<open>stored\<close>, so the seed and the
  change share the one slot. No other entry changes.
\<close>

theorem accumulator_seed_and_update:
  "((\<forall>j\<in>set [0..n]. succeeded (fst (day_fetch rt r n j))) \<longrightarrow>
      fst (days_loop rt r (AddDate rt (time_Now rt) (- n)) n 0 [] []) =
        Returns (foldl (foldl scoreChanges_step) []
                   (map (\<lambda>j. records_of (fst (day_fetch rt r n j))) [0..n])) None) \<and>
   (concat days = seen @ cve # rest \<longrightarrow>
      foldl (foldl scoreChanges_step) [] days =
        foldl scoreChanges_step
          (scoreChanges_step (foldl scoreChanges_step [] seen) cve) rest) \<and>
   (map_of (foldl scoreChanges_step [] seen) (ID cve) = None) =
     (ID cve \<notin> ID ` set seen) \<and>
   map_of (scoreChanges_step (foldl scoreChanges_step [] seen) cve) (ID cve) =
     (case map_of (foldl scoreChanges_step [] seen) (ID cve) of
        None \<Rightarrow> Some (EPSSScore cve)
      | Some stored \<Rightarrow>
          Some (if f64_gt (f64_sub (EPSSScore cve) stored) stored
                then f64_sub (EPSSScore cve) stored else stored)) \<and>
   (\<forall>k. k \<noteq> ID cve \<longrightarrow>
      map_of (scoreChanges_step (foldl scoreChanges_step [] seen) cve) k =
      map_of (foldl scoreChanges_step [] seen) k)"
proof (intro conjI allI impI)
  assume "\<forall>j\<in>set [0..n]. succeeded (fst (day_fetch rt r n j))"
  then show "fst (days_loop rt r (AddDate rt (time_Now rt) (- n)) n 0 [] []) =
        Returns (foldl (foldl scoreChanges_step) []
                   (map (\<lambda>j. records_of (fst (day_fetch rt r n j))) [0..n])) None"
    by (rule days_loop_window)
next
  assume "concat days = seen @ cve # rest"
  then show "foldl (foldl scoreChanges_step) [] days =
          foldl scoreChanges_step
            (scoreChanges_step (foldl scoreChanges_step [] seen) cve) rest"
    by (simp add: foldl_foldl_concat)
next
  show "(map_of (foldl scoreChanges_step [] seen) (ID cve) = None) =
          (ID cve \<notin> ID ` set seen)"
    by (simp add: map_of_None_keys keys_foldl)
  show "map_of (scoreChanges_step (foldl scoreChanges_step [] seen) cve) (ID cve) =
          (case map_of (foldl scoreChanges_step [] seen) (ID cve) of
             None \<Rightarrow> Some (EPSSScore cve)
           | Some stored \<Rightarrow>
               Some (if f64_gt (f64_sub (EPSSScore cve) stored) stored
                     then f64_sub (EPSSScore cve) stored else stored))"
    by (simp add: map_of_step)
  show "map_of (scoreChanges_step (foldl scoreChanges_step [] seen) cve) k =
          map_of (foldl scoreChanges_step [] seen) k" if "k \<noteq> ID cve" for k
    using that by (simp add: map_of_step)
qed

lemma succeeded_Returns_records: "succeeded res \<Longrightarrow> res = Returns (records_of res) None"
  by (cases res rule: succeeded.cases) simp_all

lemma fetch_day_urls:
  "snd (fetch_day rt r date) =
     (if url_Parse rt (baseURL r) then [URL (baseURL r) [(''date'', date)]] else [])"
  by (simp add: fetch_day_def buildURL_def split: prod.splits option.splits outcome.splits)

lemma fetch_day_error:
  "fst (fetch_day rt r date) = Returns l (Some err) \<Longrightarrow> l = []"
  by (auto simp: fetch_day_def split: prod.splits option.splits outcome.splits)

lemma GetHighestIncreases_success:
  assumes "fst (GetHighestIncreases rt r days limit) = Returns scoreChanges None"
  shows "(\<forall>j\<in>set [0..days]. succeeded (fst (day_fetch rt r days j))) \<and>
         scoreChanges =
           take (nat limit)
             (sort_Slice rt (\<lambda>a b. f64_gt (ScoreChange a) (ScoreChange b))
                (changes_of (time_Now rt)
                   (map_range rt (foldl scoreChanges_step [] (observed rt r days))))) \<and>
         0 \<le> limit"
proof -
  define s where "s = AddDate rt (time_Now rt) (- days)"
  obtain res fetched where dl: "days_loop rt r s days 0 [] [] = (res, fetched)"
    by (cases "days_loop rt r s days 0 [] []")
  from assms dl obtain m where res: "res = Returns m None"
    by (cases res rule: succeeded.cases)
      (auto simp: GetHighestIncreases_def Let_def s_def split: if_splits)
  have ok: "succeeded (fst (fetch_day rt r (Format rt (AddDate rt s j))))"
    if "0 \<le> j" "j \<le> days" for j
    using days_loop_success [of rt r s days 0 "[]" "[]" m j] dl res that by simp
  from days_loop_ok [of 0 days rt r s "[]" "[]"] ok dl res
  have m: "m = foldl scoreChanges_step [] (observed rt r days)"
    by (simp add: observed_def day_fetch_def s_def)
  define S where "S = sort_Slice rt (\<lambda>a b. f64_gt (ScoreChange a) (ScoreChange b))
                (changes_of (time_Now rt) (map_range rt m))"
  from assms dl res have sc: "scoreChanges = (if limit < int (length S) then take (nat limit) S else S)"
    and lim: "limit < int (length S) \<longrightarrow> 0 \<le> limit"
    by (auto simp: GetHighestIncreases_def Let_def s_def S_def changes_of_def split: if_splits)
  have "scoreChanges = take (nat limit) S" using sc by auto
  moreover have "0 \<le> limit" using lim by (cases "0 \<le> limit") auto
  ultimately show ?thesis using ok m
    by (auto simp: S_def day_fetch_def s_def)
qed

lemma changes_of_props:
  "map CVE (changes_of now m) = map fst m"
  "map ScoreChange (changes_of now m) = map snd m"
  "x \<in> set (changes_of now m) \<Longrightarrow> ScoreChange.Date x = now"
  by (auto simp: changes_of_def split: prod.splits)

lemma sorted_entries:
  fixes rt :: runtime and now :: Time and m :: "(string \<times> float64) list"
  assumes "range_contract rt" "sort_contract rt"
  defines "S \<equiv> sort_Slice rt (\<lambda>a b. f64_gt (ScoreChange a) (ScoreChange b))
                (changes_of now (map_range rt m))"
  shows "mset S = mset (changes_of now m)"
    and "mset (map CVE S) = mset (map fst m)"
    and "mset (map ScoreChange S) = mset (map snd m)"
proof -
  from assms(2) have "mset S = mset (changes_of now (map_range rt m))"
    by (simp add: sort_contract_def S_def)
  also from assms(1) have "\<dots> = mset (changes_of now m)"
    unfolding changes_of_def range_contract_def by (metis mset_map)
  finally show 1: "mset S = mset (changes_of now m)" .
  then have "mset (map CVE S) = mset (map CVE (changes_of now m))"
    by (metis mset_map)
  then show "mset (map CVE S) = mset (map fst m)" by (simp add: changes_of_props)
  from 1 have "mset (map ScoreChange S) = mset (map ScoreChange (changes_of now m))"
    by (metis mset_map)
  then show "mset (map ScoreChange S) = mset (map snd m)" by (simp add: changes_of_props)
qed

lemma update_values:
  "(k', v') \<in> set (AList.update k v m) \<Longrightarrow> (k', v') = (k, v) \<or> (k', v') \<in> set m"
  by (induction m) (auto split: if_splits)

lemma values_step:
  assumes "\<forall>v\<in>snd ` set m. v \<noteq> NaN" "EPSSScore cve \<noteq> NaN"
  shows "\<forall>v\<in>snd ` set (scoreChanges_step m cve). v \<noteq> NaN"
proof (cases "map_of m (ID cve)")
  case None
  with assms show ?thesis
    by (auto simp: scoreChanges_step_def dest!: update_values)
next
  case (Some stored)
  with assms show ?thesis
    by (auto simp: scoreChanges_step_def Let_def dest!: update_values)
qed

lemma values_foldl:
  "\<forall>v\<in>snd ` set m. v \<noteq> NaN \<Longrightarrow> \<forall>c\<in>set cves. EPSSScore c \<noteq> NaN \<Longrightarrow>
   \<forall>v\<in>snd ` set (foldl scoreChanges_step m cves). v \<noteq> NaN"
proof (induction cves arbitrary: m)
  case Nil
  then show ?case by simp
next
  case (Cons c cves)
  from Cons.prems have "\<forall>v\<in>snd ` set (scoreChanges_step m c). v \<noteq> NaN"
    by (intro values_step) auto
  with Cons show ?case by simp
qed

lemma untouched_foldl:
  "k \<notin> ID ` set cves \<Longrightarrow> map_of (foldl scoreChanges_step m cves) k = map_of m k"
  by (induction cves arbitrary: m) (auto simp: map_of_step)

lemma seed_only:
  "map_of m k = None \<Longrightarrow> count_list (map ID cves) k = 1 \<Longrightarrow>
   \<exists>c\<in>set cves. ID c = k \<and> map_of (foldl scoreChanges_step m cves) k = Some (EPSSScore c)"
proof (induction cves arbitrary: m)
  case Nil
  then show ?case by simp
next
  case (Cons c cves)
  show ?case
  proof (cases "ID c = k")
    case True
    with Cons.prems(2) have "count_list (map ID cves) k = 0" by simp
    then have "k \<notin> ID ` set cves" by (simp add: count_list_0_iff)
    then have "map_of (foldl scoreChanges_step (scoreChanges_step m c) cves) k =
                 map_of (scoreChanges_step m c) k"
      by (rule untouched_foldl)
    with True Cons.prems(1) show ?thesis by (auto simp: map_of_step)
  next
    case False
    with Cons.prems have "map_of (scoreChanges_step m c) k = None"
      "count_list (map ID cves) k = 1"
      by (auto simp: map_of_step)
    from Cons.IH [OF this] show ?thesis by auto
  qed
qed

text \<open>
  Claim C9. When \<^verbatim>\<open>GetHighestIncreases\<close> returns a list and no error, the CVE ids of the
  list are pairwise distinct and every entry carries the date read from the clock at the
  start of the call.
\<close>

theorem entries_distinct_same_date:
  assumes "range_contract rt" "sort_contract rt"
    and "fst (GetHighestIncreases rt r days limit) = Returns scoreChanges None"
  shows "distinct (map CVE scoreChanges) \<and>
         (\<forall>x\<in>set scoreChanges. ScoreChange.Date x = time_Now rt)"
proof -
  define m where "m = foldl scoreChanges_step [] (observed rt r days)"
  define S where "S = sort_Slice rt (\<lambda>a b. f64_gt (ScoreChange a) (ScoreChange b))
                (changes_of (time_Now rt) (map_range rt m))"
  from GetHighestIncreases_success [OF assms(3)]
  have sc: "scoreChanges = take (nat limit) S" by (simp add: S_def m_def)
  have "distinct (map fst m)" unfolding m_def by (rule distinct_foldl) simp
  moreover have "mset (map CVE S) = mset (map fst m)"
    unfolding S_def by (rule sorted_entries [OF assms(1,2)])
  ultimately have "distinct (map CVE S)" by (metis mset_eq_imp_distinct_iff)
  then have "distinct (map CVE scoreChanges)"
    unfolding sc take_map [symmetric] by (rule distinct_take)
  moreover have "ScoreChange.Date x = time_Now rt" if "x \<in> set scoreChanges" for x
  proof -
    from that sc have "x \<in> set S" by (auto dest: in_set_takeD)
    moreover have "mset S = mset (changes_of (time_Now rt) m)"
      unfolding S_def by (rule sorted_entries [OF assms(1,2)])
    ultimately have "x \<in> set (changes_of (time_Now rt) m)" by (metis set_mset_mset)
    then show ?thesis by (rule changes_of_props)
  qed
  ultimately show ?thesis by blast
qed

text \<open>
  Claim C2, amended. When \<^verbatim>\<open>GetHighestIncreases\<close> returns a list and no error, and no
  observed score is NaN, no entry of the list is exceeded by a later one (the order is
  descending, with ties allowed), and the length of the list is the smaller of \<open>limit\<close>
  and the number of distinct CVE ids observed over the days fetched.
\<close>

theorem highest_increases_descending:
  assumes "range_contract rt" "sort_contract rt"
    and "fst (GetHighestIncreases rt r days limit) = Returns scoreChanges None"
    and "\<forall>c\<in>set (observed rt r days). EPSSScore c \<noteq> NaN"
  shows "descending scoreChanges \<and>
         int (length scoreChanges) = min limit (int (card (ID ` set (observed rt r days))))"
proof -
  define m where "m = foldl scoreChanges_step [] (observed rt r days)"
  define S where "S = sort_Slice rt (\<lambda>a b. f64_gt (ScoreChange a) (ScoreChange b))
                (changes_of (time_Now rt) (map_range rt m))"
  from GetHighestIncreases_success [OF assms(3)]
  have sc: "scoreChanges = take (nat limit) S" and lim: "0 \<le> limit"
    by (simp_all add: S_def m_def)
  have S: "mset S = mset (changes_of (time_Now rt) m)"
    and keys: "mset (map CVE S) = mset (map fst m)"
    and vals: "mset (map ScoreChange S) = mset (map snd m)"
    unfolding S_def by (rule sorted_entries [OF assms(1,2)])+
  have "\<forall>v\<in>snd ` set m. v \<noteq> NaN"
    unfolding m_def using assms(4) by (intro values_foldl) simp_all
  moreover from vals have "set (map ScoreChange S) = set (map snd m)" by (metis set_mset_mset)
  ultimately have nan: "\<forall>a\<in>set S. ScoreChange a \<noteq> NaN"
    by (metis (no_types, lifting) image_eqI set_map)
  have "mset (changes_of (time_Now rt) (map_range rt m)) = mset S"
    using assms(2) by (simp add: sort_contract_def S_def)
  then have "set (changes_of (time_Now rt) (map_range rt m)) = set S" by (metis set_mset_mset)
  with nan have "strict_weak_on (set (changes_of (time_Now rt) (map_range rt m)))
                   (\<lambda>a b. f64_gt (ScoreChange a) (ScoreChange b))"
    by (intro strict_weak_changes) simp
  with assms(2) have "sorted_wrt (\<lambda>a b. \<not> f64_gt (ScoreChange b) (ScoreChange a)) S"
    unfolding sort_contract_def S_def by blast
  then have 1: "descending scoreChanges"
    unfolding descending_def sc by (rule sorted_wrt_take)
  have "distinct (map fst m)" unfolding m_def by (rule distinct_foldl) simp
  then have "card (fst ` set m) = length m" by (metis distinct_card length_map set_map)
  moreover have "fst ` set m = ID ` set (observed rt r days)"
    unfolding m_def by (simp add: keys_foldl)
  moreover from keys have "length S = length m" by (metis length_map size_mset)
  ultimately have "length S = card (ID ` set (observed rt r days))" by simp
  with sc lim have "int (length scoreChanges) = min limit (int (card (ID ` set (observed rt r days))))"
    by (cases "nat limit \<le> length S") (simp_all add: min_def, linarith+)
  with 1 show ?thesis by blast
qed

lemma fetch_day_error_kind:
  "fst (fetch_day rt r date) = Returns l (Some err) \<Longrightarrow>
     l = [] \<and> (is_transport_failure err \<or> is_decode_failure err)"
  by (auto simp: fetch_day_def buildURL_def
      split: prod.splits option.splits outcome.splits if_splits
      dest: fetchData_error convertDataArray_error)

lemma GetHighestIncreases_error:
  "fst (GetHighestIncreases rt r days limit) = Returns x (Some e) \<Longrightarrow> x = []"
  by (auto simp: GetHighestIncreases_def Let_def split: prod.splits outcome.splits option.splits if_splits)

text \<open>
  Claim C5. If the fetch of a day \<open>j\<close> of the window returns an error (it is then a
  transport or a decode failure, with the nil list), \<^verbatim>\<open>GetHighestIncreases\<close> returns no
  list: its result is an error with the nil list, or the panic of an earlier day. When
  the days before \<open>j\<close> were fetched, the result is the error of day \<open>j\<close> itself.
\<close>

theorem failed_day_aborts:
  assumes "0 \<le> j" "j \<le> days"
    and "fst (day_fetch rt r days j) = Returns l (Some err)"
  shows "(fst (GetHighestIncreases rt r days limit) = Panics \<or>
          (\<exists>e. fst (GetHighestIncreases rt r days limit) = Returns [] (Some e))) \<and>
         ((\<forall>k\<in>set [0..j - 1]. succeeded (fst (day_fetch rt r days k))) \<longrightarrow>
            fst (GetHighestIncreases rt r days limit) = Returns [] (Some err)) \<and>
         l = [] \<and> (is_transport_failure err \<or> is_decode_failure err)"
proof (intro conjI impI)
  show "fst (GetHighestIncreases rt r days limit) = Panics \<or>
          (\<exists>e. fst (GetHighestIncreases rt r days limit) = Returns [] (Some e))"
  proof (cases "fst (GetHighestIncreases rt r days limit)")
    case (Returns x e)
    show ?thesis
    proof (cases e)
      case None
      with Returns GetHighestIncreases_success [of rt r days limit x]
      have "\<forall>j\<in>set [0..days]. succeeded (fst (day_fetch rt r days j))" by simp
      moreover from assms(1,2) have "j \<in> set [0..days]" by simp
      ultimately have "succeeded (fst (day_fetch rt r days j))" by blast
      with assms(3) show ?thesis by simp
    next
      case (Some e')
      with Returns GetHighestIncreases_error [of rt r days limit x e'] show ?thesis by simp
    qed
  qed simp
next
  assume first: "\<forall>k\<in>set [0..j - 1]. succeeded (fst (day_fetch rt r days k))"
  define s where "s = AddDate rt (time_Now rt) (- days)"
  have "fst (days_loop rt r s days 0 [] []) =
          (case fst (fetch_day rt r (Format rt (AddDate rt s j))) of
             Panics \<Rightarrow> Panics | Returns l err \<Rightarrow> Returns [] err)"
    using assms first by (intro days_loop_fails) (simp_all add: day_fetch_def s_def)
  with assms(3) have "fst (days_loop rt r s days 0 [] []) = Returns [] (Some err)"
    by (simp add: day_fetch_def s_def)
  then show "fst (GetHighestIncreases rt r days limit) = Returns [] (Some err)"
    by (cases "days_loop rt r s days 0 [] []") (simp add: GetHighestIncreases_def Let_def s_def)
next
  from assms(3) show "l = []" "is_transport_failure err \<or> is_decode_failure err"
    using fetch_day_error_kind [of rt r _ l err] by (simp_all add: day_fetch_def)
qed

lemma fetch_day_success_parse:
  "succeeded (fst (fetch_day rt r date)) \<Longrightarrow> url_Parse rt (baseURL r)"
  by (auto simp: fetch_day_def buildURL_def split: if_splits)

lemma GetHighestIncreases_fetched:
  "snd (GetHighestIncreases rt r days limit) =
     snd (days_loop rt r (AddDate rt (time_Now rt) (- days)) days 0 [] [])"
  by (auto simp: GetHighestIncreases_def Let_def
      split: prod.splits outcome.splits option.splits)

text \<open>
  Claim C4, amended. A call with \<open>days = 0\<close> that returns a list and no error has fetched
  exactly one request, that of the date of the clock. Every entry returned is a CVE of
  the records of that day, and when the id occurs once among them the change of the entry
  is the score of its record (the seed). When \<open>limit\<close> is at least the number of records,
  every CVE of the day has an entry.
\<close>

theorem single_day_seed_only:
  assumes "range_contract rt" "sort_contract rt"
    and "GetHighestIncreases rt r 0 limit = (Returns scoreChanges None, fetched)"
  shows "fetched =
           [URL (baseURL r)
              [(''date'', Format rt (AddDate rt (AddDate rt (time_Now rt) 0) 0))]] \<and>
         (\<exists>cveList. fst (day_fetch rt r 0 0) = Returns cveList None \<and>
            (\<forall>x\<in>set scoreChanges. \<exists>c\<in>set cveList. ID c = CVE x \<and>
               (count_list (map ID cveList) (CVE x) = 1 \<longrightarrow> ScoreChange x = EPSSScore c)) \<and>
            (int (length cveList) \<le> limit \<longrightarrow> ID ` set cveList \<subseteq> CVE ` set scoreChanges))"
proof -
  define cveList where "cveList = records_of (fst (day_fetch rt r 0 0))"
  define m where "m = foldl scoreChanges_step [] cveList"
  define S where "S = sort_Slice rt (\<lambda>a b. f64_gt (ScoreChange a) (ScoreChange b))
                (changes_of (time_Now rt) (map_range rt m))"
  have obs: "observed rt r 0 = cveList" by (simp add: observed_def cveList_def)
  from assms(3) have ret: "fst (GetHighestIncreases rt r 0 limit) = Returns scoreChanges None"
    by simp
  from GetHighestIncreases_success [OF ret]
  have ok: "succeeded (fst (day_fetch rt r 0 0))"
    and sc: "scoreChanges = take (nat limit) S" and lim: "0 \<le> limit"
    by (simp_all add: obs S_def m_def)
  from ok have day: "fst (day_fetch rt r 0 0) = Returns cveList None"
    unfolding cveList_def by (rule succeeded_Returns_records)
  have S: "mset S = mset (changes_of (time_Now rt) m)"
    and keys: "mset (map CVE S) = mset (map fst m)"
    unfolding S_def by (rule sorted_entries [OF assms(1,2)])+
  have dist: "distinct (map fst m)" unfolding m_def by (rule distinct_foldl) simp
  have dom: "fst ` set m = ID ` set cveList" unfolding m_def by (simp add: keys_foldl)
  \<comment> \<open>the one fetch\<close>
  have "succeeded (fst (fetch_day rt r (Format rt (AddDate rt (AddDate rt (time_Now rt) 0) j))))"
    if "0 \<le> j" "j \<le> 0" for j
    using that ok by (simp add: day_fetch_def)
  from days_loop_ok [of 0 0 rt r "AddDate rt (time_Now rt) 0" "[]" "[]", OF this]
  have "snd (days_loop rt r (AddDate rt (time_Now rt) 0) 0 0 [] []) =
          snd (fetch_day rt r (Format rt (AddDate rt (AddDate rt (time_Now rt) 0) 0)))"
    by simp
  moreover from ok have "url_Parse rt (baseURL r)"
    unfolding day_fetch_def by (rule fetch_day_success_parse)
  moreover from assms(3) have "fetched = snd (GetHighestIncreases rt r 0 limit)" by simp
  ultimately have 1: "fetched =
           [URL (baseURL r)
              [(''date'', Format rt (AddDate rt (AddDate rt (time_Now rt) 0) 0))]]"
    by (simp add: GetHighestIncreases_fetched fetch_day_urls)
  \<comment> \<open>each entry\<close>
  have 2: "\<exists>c\<in>set cveList. ID c = CVE x \<and>
               (count_list (map ID cveList) (CVE x) = 1 \<longrightarrow> ScoreChange x = EPSSScore c)"
    if "x \<in> set scoreChanges" for x
  proof -
    from that sc have "x \<in> set S" by (auto dest: in_set_takeD)
    with S have "x \<in> set (changes_of (time_Now rt) m)" by (metis set_mset_mset)
    then obtain k v where kv: "(k, v) \<in> set m" and x: "CVE x = k" "ScoreChange x = v"
      by (auto simp: changes_of_def)
    from kv dist have mk: "map_of m k = Some v" by simp
    from kv dom have "k \<in> ID ` set cveList" by force
    then obtain c0 where c0: "c0 \<in> set cveList" "ID c0 = k" by auto
    show ?thesis
    proof (cases "count_list (map ID cveList) k = 1")
      case True
      from seed_only [of "[]" k cveList] True
      obtain c where "c \<in> set cveList" "ID c = k" "map_of m k = Some (EPSSScore c)"
        unfolding m_def by auto
      with mk x show ?thesis by auto
    next
      case False
      with c0 x show ?thesis by auto
    qed
  qed
  \<comment> \<open>all of them when the limit allows\<close>
  have 3: "ID ` set cveList \<subseteq> CVE ` set scoreChanges" if "int (length cveList) \<le> limit"
  proof -
    from keys have "length S = length m" by (metis length_map size_mset)
    also from dist have "\<dots> = card (fst ` set m)" by (metis distinct_card length_map set_map)
    also have "\<dots> \<le> length cveList" unfolding dom by (metis card_image_le card_length List.finite_set le_trans)
    finally have "length S \<le> nat limit" using that by simp
    with sc have "scoreChanges = S" by simp
    moreover from keys have "set (map CVE S) = set (map fst m)" by (metis set_mset_mset)
    ultimately show ?thesis using dom by simp
  qed
  from 1 2 3 day show ?thesis by blast
qed

section \<open>The threshold query\<close>

lemma digit_in: "digit d \<in> set ''0123456789''"
  unfolding digit_def by (rule nth_mem) simp

lemma convertDataArray_array:
  "map_of data ''data'' = Some (JArray apiData) \<Longrightarrow>
   convertAPIResponseToCVEDataArray rt (JObject data) = convert_loop rt apiData []"
  by (simp add: convertAPIResponseToCVEDataArray_def)

text \<open>
  Claim C10. The threshold enters the request as the text \<^verbatim>\<open>FormatFloat(threshold, 'f', 2,
  64)\<close>, which for a finite value ends with a point and exactly two digits: the request
  passed to \<^verbatim>\<open>http.Get\<close> has the one parameter \<^verbatim>\<open>field-gt\<close> with this text, so that a
  failure of that request is the error returned (it names the request) and a reply to it
  whose elements carry their fields is the list returned. Two thresholds with the same
  text give the same request and the same result; 0.955 and 0.95 are two such thresholds,
  both written \<^verbatim>\<open>0.95\<close>.
\<close>

theorem threshold_two_decimals:
  "(FormatFloat_f2 t1 = FormatFloat_f2 t2 \<longrightarrow>
      threshold_request r t1 field = threshold_request r t2 field \<and>
      GetCVEsAboveThreshold rt r t1 field = GetCVEsAboveThreshold rt r t2 field) \<and>
   (url_Parse rt (baseURL r) \<and>
    http_Get rt (URL (baseURL r) [(field @ ''-gt'', FormatFloat_f2 t)]) = GetError \<longrightarrow>
      GetCVEsAboveThreshold rt r t field =
        Returns []
          (Some (FetchFailed (URL (baseURL r) [(field @ ''-gt'', FormatFloat_f2 t)])))) \<and>
   (url_Parse rt (baseURL r) \<and>
    http_Get rt (URL (baseURL r) [(field @ ''-gt'', FormatFloat_f2 t)]) =
      Response 200 (Body (Some (JObject data))) \<and>
    map_of data ''data'' = Some (JArray apiData) \<and>
    (\<forall>j\<in>set apiData. carries_fields rt j) \<longrightarrow>
      (\<exists>cves. GetCVEsAboveThreshold rt r t field = Returns cves None \<and>
              list_all2 (decodes_to rt) apiData cves)) \<and>
   (\<exists>sign whole d1 d2.
      FormatFloat_f2 (Finite x) = sign @ whole @ ''.'' @ [d1, d2] \<and>
      d1 \<in> set ''0123456789'' \<and> d2 \<in> set ''0123456789'') \<and>
   FormatFloat_f2 (round64 (955 / 1000)) = ''0.95'' \<and>
   FormatFloat_f2 (round64 (95 / 100)) = ''0.95''"
proof (intro conjI impI)
  assume "FormatFloat_f2 t1 = FormatFloat_f2 t2"
  then show "threshold_request r t1 field = threshold_request r t2 field"
    "GetCVEsAboveThreshold rt r t1 field = GetCVEsAboveThreshold rt r t2 field"
    by (simp_all add: threshold_request_def GetCVEsAboveThreshold_def)
next
  assume "url_Parse rt (baseURL r) \<and>
    http_Get rt (URL (baseURL r) [(field @ ''-gt'', FormatFloat_f2 t)]) = GetError"
  then show "GetCVEsAboveThreshold rt r t field =
        Returns []
          (Some (FetchFailed (URL (baseURL r) [(field @ ''-gt'', FormatFloat_f2 t)])))"
    by (simp add: GetCVEsAboveThreshold_def buildURL_def fetchData_def)
next
  assume a: "url_Parse rt (baseURL r) \<and>
    http_Get rt (URL (baseURL r) [(field @ ''-gt'', FormatFloat_f2 t)]) =
      Response 200 (Body (Some (JObject data))) \<and>
    map_of data ''data'' = Some (JArray apiData) \<and>
    (\<forall>j\<in>set apiData. carries_fields rt j)"
  then obtain cves where "convert_loop rt apiData [] = Returns cves None"
    "list_all2 (decodes_to rt) apiData cves"
    using convert_loop_ok [of apiData rt "[]"] by auto
  with a show "\<exists>cves. GetCVEsAboveThreshold rt r t field = Returns cves None \<and>
              list_all2 (decodes_to rt) apiData cves"
    by (simp add: GetCVEsAboveThreshold_def buildURL_def fetchData_def convertDataArray_array)
next
  show "\<exists>sign whole d1 d2.
      FormatFloat_f2 (Finite x) = sign @ whole @ ''.'' @ [d1, d2] \<and>
      d1 \<in> set ''0123456789'' \<and> d2 \<in> set ''0123456789''"
    unfolding FormatFloat_f2.simps Let_def
    using digit_in by blast
next
  show "FormatFloat_f2 (round64 (955 / 1000)) = ''0.95''" by code_simp
  show "FormatFloat_f2 (round64 (95 / 100)) = ''0.95''" by code_simp
qed

section \<open>The code on the examples\<close>

text \<open>
  Claim C2, as stated, fails. On the two days of the example, with \<open>limit = 2\<close>, the list
  returned has two entries with the same change 0.0005, so it is not strictly descending;
  and with \<open>limit = - 1\<close> the call panics and returns no list. When a score is NaN, which
  compares false with every value, the insertion sort leaves 0.2 behind 0.1: the list is
  not even descending.
\<close>

theorem tie_not_strictly_descending:
  "fst (GetHighestIncreases (example (server_Get two_days) id) epss_api 1 2) =
     Returns [change ''CVE-A'' (5 / 10000), change ''CVE-B'' (5 / 10000)] None \<and>
   \<not> strictly_descending [change ''CVE-A'' (5 / 10000), change ''CVE-B'' (5 / 10000)] \<and>
   fst (GetHighestIncreases (example (server_Get two_days) id) epss_api 1 (- 1)) = Panics \<and>
   fst (GetHighestIncreases (example (server_Get with_nan) id) epss_api 0 5) =
     Returns [change ''CVE-Y'' (1 / 10), \<lparr>CVE = ''CVE-X'', Date = 1, ScoreChange = NaN\<rparr>,
              change ''CVE-Z'' (2 / 10)] None \<and>
   \<not> descending [change ''CVE-Y'' (1 / 10), \<lparr>CVE = ''CVE-X'', Date = 1, ScoreChange = NaN\<rparr>,
                 change ''CVE-Z'' (2 / 10)]"
  by code_simp

text \<open>
  Claim C3. CVE-A moves from 0.0004 to 0.0009 and CVE-B stays at 0.0005, over two days,
  and the call has \<open>days = 1\<close> and \<open>limit = 1\<close>. The change of CVE-A is 0.0005; the value
  kept for CVE-B is its score of the first day, 0.0005 as well, since its change 0 does
  not exceed it. The two entries tie, and the one returned is the one \<^verbatim>\<open>range\<close> visits
  first: CVE-B in one order, CVE-A in the other.
\<close>

theorem tie_returns_unchanged_cve:
  "fst (GetHighestIncreases (example (server_Get two_days) rev) epss_api 1 1) =
     Returns [change ''CVE-B'' (5 / 10000)] None \<and>
   fst (GetHighestIncreases (example (server_Get two_days) id) epss_api 1 1) =
     Returns [change ''CVE-A'' (5 / 10000)] None \<and>
   f64_sub (round64 (9 / 10000)) (round64 (4 / 10000)) = round64 (5 / 10000) \<and>
   f64_sub (round64 (5 / 10000)) (round64 (5 / 10000)) = Finite 0"
  by code_simp

text \<open>
  Claim C6. With the threshold 0.954 and the field \<^verbatim>\<open>epss\<close> the request asks for
  \<^verbatim>\<open>epss-gt=0.95\<close>. A server that filters on the parameter it receives answers with the
  record of score 0.952, which \<^verbatim>\<open>GetCVEsAboveThreshold\<close> returns as it is, and 0.952 does
  not exceed 0.954.
\<close>

theorem rounded_threshold_returns_lower_score:
  "threshold_request epss_api (round64 (954 / 1000)) ''epss'' =
     URL ''https://api.first.org/data/v1/epss'' [(''epss-gt'', ''0.95'')] \<and>
   GetCVEsAboveThreshold (example (server_Get high_scores) id) epss_api
       (round64 (954 / 1000)) ''epss'' =
     Returns [score_record ''CVE-C'' (952 / 1000) (99 / 100) ''2024-10-18'',
              score_record ''CVE-D'' (97 / 100) (995 / 1000) ''2024-10-18''] None \<and>
   \<not> f64_gt (round64 (952 / 1000)) (round64 (954 / 1000))"
  by code_simp

text \<open>
  Claim C4, as stated, fails. A day that lists CVE-A with the score 0.1 and then with the
  score 0.9 gives the one entry 0.8, the difference, which is neither score; and with
  \<open>limit = 1\<close> the day of CVE-A and CVE-B gives an entry for CVE-A only.
\<close>

theorem repeated_id_not_seed:
  "GetHighestIncreases (example (server_Get repeated_id) id) epss_api 0 5 =
     (Returns [change ''CVE-A'' (8 / 10)] None,
      [URL ''https://api.first.org/data/v1/epss'' [(''date'', ''2024-10-18'')]]) \<and>
   fst (day_fetch (example (server_Get repeated_id) id) epss_api 0 0) =
     Returns [score_record ''CVE-A'' (1 / 10) (90 / 100) ''2024-10-18'',
              score_record ''CVE-A'' (9 / 10) (99 / 100) ''2024-10-18''] None \<and>
   round64 (8 / 10) \<noteq> round64 (1 / 10) \<and>
   round64 (8 / 10) \<noteq> round64 (9 / 10) \<and>
   fst (day_fetch (example (server_Get two_days) id) epss_api 0 0) = Returns second_day None \<and>
   fst (GetHighestIncreases (example (server_Get two_days) id) epss_api 0 1) =
     Returns [change ''CVE-A'' (9 / 10000)] None"
  by code_simp

text \<open>
  Claim C8. An element of the \<^verbatim>\<open>data\<close> array that is not an object lacks every field. The
  type assertion on the element has no comma-ok form, unlike the two assertions on the
  response and on its \<^verbatim>\<open>data\<close> member, which return an error: on a \<^verbatim>\<open>data\<close> array
  that holds \<^verbatim>\<open>null\<close> the decoding panics, and so do the threshold query and the highest
  increases on a server that replies so. No error is returned.
\<close>

theorem null_element_panics:
  "convertAPIResponseToCVEDataArray rt (JObject [(''data'', JArray [JNull])]) = Panics \<and>
   convertAPIResponseToCVEDataArray rt (JObject [(''data'', JNull)]) =
     Returns [] (Some UnexpectedResponseType) \<and>
   convertAPIResponseToCVEDataArray rt JNull = Returns [] (Some UnexpectedResponseType) \<and>
   GetCVEsAboveThreshold (example null_element_Get id) epss_api (round64 (95 / 100)) ''epss'' =
     Panics \<and>
   fst (GetHighestIncreases (example null_element_Get id) epss_api 0 5) = Panics"
proof (intro conjI)
  show "convertAPIResponseToCVEDataArray rt (JObject [(''data'', JArray [JNull])]) = Panics"
    "convertAPIResponseToCVEDataArray rt (JObject [(''data'', JNull)]) =
       Returns [] (Some UnexpectedResponseType)"
    "convertAPIResponseToCVEDataArray rt JNull = Returns [] (Some UnexpectedResponseType)"
    by (simp_all add: convertAPIResponseToCVEDataArray_def)
  show "GetCVEsAboveThreshold (example null_element_Get id) epss_api (round64 (95 / 100)) ''epss'' =
     Panics"
    by code_simp
  show "fst (GetHighestIncreases (example null_element_Get id) epss_api 0 5) = Panics"
    by code_simp
qed

section \<open>The theorems at the examples\<close>

theorem accumulator_seed_and_update_witness:
  "list_all (\<lambda>j. succeeded (fst (day_fetch (example (server_Get two_days) id) epss_api 1 j)))
     [0..1] \<and>
   fst (days_loop (example (server_Get two_days) id) epss_api
          (AddDate (example (server_Get two_days) id)
             (time_Now (example (server_Get two_days) id)) (- 1)) 1 0 [] []) =
     Returns (foldl (foldl scoreChanges_step) [] [first_day, second_day]) None \<and>
   concat [first_day, second_day] = first_day @ hd second_day # tl second_day \<and>
   ID (hd second_day) \<in> ID ` set first_day \<and>
   map_of (foldl scoreChanges_step [] first_day) (ID (hd second_day)) =
     Some (round64 (4 / 10000)) \<and>
   map_of (scoreChanges_step (foldl scoreChanges_step [] first_day) (hd second_day))
       (ID (hd second_day)) =
     Some (round64 (5 / 10000))"
proof -
  have w: "list_all
     (\<lambda>j. succeeded (fst (day_fetch (example (server_Get two_days) id) epss_api 1 j))) [0..1]"
    by code_simp
  have r: "map (\<lambda>j. records_of (fst (day_fetch (example (server_Get two_days) id) epss_api 1 j)))
             [0..1] = [first_day, second_day]"
    by code_simp
  have h: "concat [first_day, second_day] = first_day @ hd second_day # tl second_day"
    by (simp add: second_day_def)
  have a: "map_of (foldl scoreChanges_step [] first_day) (ID (hd second_day)) =
             Some (round64 (4 / 10000))"
    by code_simp
  have b: "(if f64_gt (f64_sub (EPSSScore (hd second_day)) (round64 (4 / 10000)))
                 (round64 (4 / 10000))
            then f64_sub (EPSSScore (hd second_day)) (round64 (4 / 10000))
            else round64 (4 / 10000)) = round64 (5 / 10000)"
    by code_simp
  note c1 = accumulator_seed_and_update
    [where n = 1 and rt = "example (server_Get two_days) id" and r = epss_api
       and days = "[first_day, second_day]" and seen = first_day
       and cve = "hd second_day" and rest = "tl second_day"]
  from w have w': "\<forall>j\<in>set [0..1].
     succeeded (fst (day_fetch (example (server_Get two_days) id) epss_api 1 j))"
    by (simp only: list_all_iff)
  from c1 w' have l: "fst (days_loop (example (server_Get two_days) id) epss_api
          (AddDate (example (server_Get two_days) id)
             (time_Now (example (server_Get two_days) id)) (- 1)) 1 0 [] []) =
     Returns (foldl (foldl scoreChanges_step) []
        (map (\<lambda>j. records_of (fst (day_fetch (example (server_Get two_days) id) epss_api 1 j)))
           [0..1])) None"
    by blast
  from c1
  have t: "map_of (scoreChanges_step (foldl scoreChanges_step [] first_day) (hd second_day))
             (ID (hd second_day)) =
           (case map_of (foldl scoreChanges_step [] first_day) (ID (hd second_day)) of
              None \<Rightarrow> Some (EPSSScore (hd second_day))
            | Some stored \<Rightarrow>
                Some (if f64_gt (f64_sub (EPSSScore (hd second_day)) stored) stored
                      then f64_sub (EPSSScore (hd second_day)) stored else stored))"
    and u: "(map_of (foldl scoreChanges_step [] first_day) (ID (hd second_day)) = None) =
           (ID (hd second_day) \<notin> ID ` set first_day)"
    by blast+
  have m: "map_of (scoreChanges_step (foldl scoreChanges_step [] first_day) (hd second_day))
             (ID (hd second_day)) = Some (round64 (5 / 10000))"
    unfolding t a by (simp only: option.case b)
  from u a have n: "ID (hd second_day) \<in> ID ` set first_day"
    by (metis option.distinct(1))
  from w l [unfolded r] h n a m show ?thesis by (intro conjI)
qed

theorem threshold_two_decimals_witness:
  "FormatFloat_f2 (round64 (955 / 1000)) = FormatFloat_f2 (round64 (95 / 100)) \<and>
   threshold_request epss_api (round64 (955 / 1000)) ''epss'' =
     threshold_request epss_api (round64 (95 / 100)) ''epss'' \<and>
   GetCVEsAboveThreshold (example (server_Get high_scores) id) epss_api
       (round64 (955 / 1000)) ''epss'' =
     GetCVEsAboveThreshold (example (server_Get high_scores) id) epss_api
       (round64 (95 / 100)) ''epss'' \<and>
   url_Parse (example (server_Get high_scores) id) (baseURL epss_api) \<and>
   http_Get (example (server_Get high_scores) id)
       (URL (baseURL epss_api) [(''epss'' @ ''-gt'', FormatFloat_f2 (round64 (955 / 1000)))]) =
     Response 200
       (Body (Some (JObject [(''data'', JArray (map record_json (take 2 high_scores)))]))) \<and>
   list_all (carries_fields (example (server_Get high_scores) id))
     (map record_json (take 2 high_scores)) \<and>
   (\<exists>cves. GetCVEsAboveThreshold (example (server_Get high_scores) id) epss_api
             (round64 (955 / 1000)) ''epss'' = Returns cves None \<and>
           list_all2 (decodes_to (example (server_Get high_scores) id))
             (map record_json (take 2 high_scores)) cves)"
proof -
  note c10 = threshold_two_decimals
    [where ?t1.0 = "round64 (955 / 1000)" and ?t2.0 = "round64 (95 / 100)"
       and t = "round64 (955 / 1000)" and r = epss_api and field = "''epss''"
       and rt = "example (server_Get high_scores) id"
       and data = "[(''data'', JArray (map record_json (take 2 high_scores)))]"
       and apiData = "map record_json (take 2 high_scores)" and x = 0]
  have a: "url_Parse (example (server_Get high_scores) id) (baseURL epss_api)"
    by code_simp
  have b: "http_Get (example (server_Get high_scores) id)
       (URL (baseURL epss_api) [(''epss'' @ ''-gt'', FormatFloat_f2 (round64 (955 / 1000)))]) =
     Response 200
       (Body (Some (JObject [(''data'', JArray (map record_json (take 2 high_scores)))])))"
    by code_simp
  have c: "list_all (carries_fields (example (server_Get high_scores) id))
     (map record_json (take 2 high_scores))"
    by code_simp
  have d: "map_of [(''data'', JArray (map record_json (take 2 high_scores)))] ''data'' =
     Some (JArray (map record_json (take 2 high_scores)))"
    by simp
  from c have c': "\<forall>j\<in>set (map record_json (take 2 high_scores)).
     carries_fields (example (server_Get high_scores) id) j"
    by (simp only: list_all_iff)
  from c10 have e1: "FormatFloat_f2 (round64 (955 / 1000)) = ''0.95''"
    and e2: "FormatFloat_f2 (round64 (95 / 100)) = ''0.95''"
    by blast+
  have e: "FormatFloat_f2 (round64 (955 / 1000)) = FormatFloat_f2 (round64 (95 / 100))"
    by (simp only: e1 e2)
  from c10 e have f: "threshold_request epss_api (round64 (955 / 1000)) ''epss'' =
     threshold_request epss_api (round64 (95 / 100)) ''epss''"
    and g: "GetCVEsAboveThreshold (example (server_Get high_scores) id) epss_api
       (round64 (955 / 1000)) ''epss'' =
     GetCVEsAboveThreshold (example (server_Get high_scores) id) epss_api
       (round64 (95 / 100)) ''epss''"
    by blast+
  from c10 a b c' d
  have h: "\<exists>cves. GetCVEsAboveThreshold (example (server_Get high_scores) id) epss_api
             (round64 (955 / 1000)) ''epss'' = Returns cves None \<and>
           list_all2 (decodes_to (example (server_Get high_scores) id))
             (map record_json (take 2 high_scores)) cves"
    by blast
  from e f g a b c h show ?thesis by (intro conjI)
qed

theorem point_score_not_found_witness:
  "url_Parse (example (server_Get high_scores) id) (baseURL epss_api) \<and>
   fetchData (example (server_Get high_scores) id) (score_request epss_api ''CVE-X'' []) =
     (Some (JObject [(''data'', JArray [])]), None) \<and>
   GetCVEScore (example (server_Get high_scores) id) epss_api ''CVE-X'' [] =
     Returns None (Some (NoCVEFound ''CVE-X'')) \<and>
   fetchData (example (server_Get high_scores) id) (score_request epss_api ''CVE-C'' []) =
     (Some (JObject [(''data'', JArray (map record_json (take 1 high_scores)))]), None) \<and>
   list_all (carries_fields (example (server_Get high_scores) id))
     (map record_json (take 1 high_scores)) \<and>
   (\<exists>cve. GetCVEScore (example (server_Get high_scores) id) epss_api ''CVE-C'' [] =
            Returns (Some cve) None \<and>
          decodes_to (example (server_Get high_scores) id)
            (hd (map record_json (take 1 high_scores))) cve)"
proof -
  have a: "url_Parse (example (server_Get high_scores) id) (baseURL epss_api)"
    by code_simp
  have b: "fetchData (example (server_Get high_scores) id)
       (score_request epss_api ''CVE-X'' []) =
     (Some (JObject [(''data'', JArray [])]), None)"
    by code_simp
  have c: "fetchData (example (server_Get high_scores) id)
       (score_request epss_api ''CVE-C'' []) =
     (Some (JObject [(''data'', JArray (map record_json (take 1 high_scores)))]), None)"
    by code_simp
  have d: "list_all (carries_fields (example (server_Get high_scores) id))
     (map record_json (take 1 high_scores))"
    by code_simp
  have e: "map record_json (take 1 high_scores) \<noteq> []"
    by code_simp
  have m: "map_of [(''data'', JArray items)] ''data'' = Some (JArray items)" for items
    by simp
  from d have d': "\<forall>j\<in>set (map record_json (take 1 high_scores)).
     carries_fields (example (server_Get high_scores) id) j"
    by (simp only: list_all_iff)
  from point_score_not_found
    [where rt = "example (server_Get high_scores) id" and r = epss_api
       and cveID = "''CVE-X''" and date = "[]" and data = "[(''data'', JArray [])]"
       and apiData = "[]"]
    a b m
  have f: "GetCVEScore (example (server_Get high_scores) id) epss_api ''CVE-X'' [] =
     Returns None (Some (NoCVEFound ''CVE-X''))"
    by blast
  from point_score_not_found
    [where rt = "example (server_Get high_scores) id" and r = epss_api
       and cveID = "''CVE-C''" and date = "[]"
       and data = "[(''data'', JArray (map record_json (take 1 high_scores)))]"
       and apiData = "map record_json (take 1 high_scores)"]
    a c m d' e
  have g: "\<exists>cve. GetCVEScore (example (server_Get high_scores) id) epss_api ''CVE-C'' [] =
            Returns (Some cve) None \<and>
          decodes_to (example (server_Get high_scores) id)
            (hd (map record_json (take 1 high_scores))) cve"
    by blast
  from a b f c d g show ?thesis by (intro conjI)
qed

theorem decode_all_or_nothing_witness:
  "list_all (carries_fields (example (server_Get []) id)) (map record_json high_scores) \<and>
   (\<exists>cves. convertAPIResponseToCVEDataArray (example (server_Get []) id)
             (JObject [(''data'', JArray (map record_json high_scores))]) = Returns cves None \<and>
           list_all2 (decodes_to (example (server_Get []) id)) (map record_json high_scores) cves) \<and>
   list_ex (\<lambda>j. \<not> carries_fields (example (server_Get []) id) j) (map record_json broken_rows) \<and>
   list_all is_object (map record_json broken_rows) \<and>
   (\<exists>err. convertAPIResponseToCVEDataArray (example (server_Get []) id)
            (JObject [(''data'', JArray (map record_json broken_rows))]) = Returns [] (Some err))"
proof -
  have a: "list_all (carries_fields (example (server_Get []) id)) (map record_json high_scores)"
    by code_simp
  have b: "list_ex (\<lambda>j. \<not> carries_fields (example (server_Get []) id) j)
             (map record_json broken_rows)"
    by code_simp
  have c: "list_all is_object (map record_json broken_rows)"
    by code_simp
  have d: "map_of [(''data'', JArray items)] ''data'' = Some (JArray items)" for items
    by simp
  from decode_all_or_nothing
      [where rt = "example (server_Get []) id" and apiData = "map record_json high_scores", OF d]
    decode_all_or_nothing
      [where rt = "example (server_Get []) id" and apiData = "map record_json broken_rows", OF d]
    a b c
  show ?thesis unfolding list_all_iff list_ex_iff by blast
qed

theorem failed_day_aborts_witness:
  "fst (day_fetch (example (failing_Get ''2024-10-18'' two_days) id) epss_api 1 1) =
     Returns []
       (Some (UnexpectedStatus 500
          (URL ''https://api.first.org/data/v1/epss'' [(''date'', ''2024-10-18'')]))) \<and>
   succeeded (fst (day_fetch (example (failing_Get ''2024-10-18'' two_days) id) epss_api 1 0)) \<and>
   fst (GetHighestIncreases (example (failing_Get ''2024-10-18'' two_days) id) epss_api 1 5) =
     Returns []
       (Some (UnexpectedStatus 500
          (URL ''https://api.first.org/data/v1/epss'' [(''date'', ''2024-10-18'')])))"
proof -
  have a: "fst (day_fetch (example (failing_Get ''2024-10-18'' two_days) id) epss_api 1 1) =
     Returns []
       (Some (UnexpectedStatus 500
          (URL ''https://api.first.org/data/v1/epss'' [(''date'', ''2024-10-18'')])))"
    by code_simp
  have b: "succeeded
     (fst (day_fetch (example (failing_Get ''2024-10-18'' two_days) id) epss_api 1 0))"
    by code_simp
  have c: "[0..1 - 1] = [0::int]" by code_simp
  have "(0::int) \<le> 1" "(1::int) \<le> 1" by simp_all
  from failed_day_aborts [OF this a, of 5] b c a show ?thesis by simp
qed

theorem entries_distinct_same_date_witness:
  "range_contract (example (server_Get two_days) rev) \<and>
   sort_contract (example (server_Get two_days) rev) \<and>
   fst (GetHighestIncreases (example (server_Get two_days) rev) epss_api 1 5) =
     Returns [change ''CVE-B'' (5 / 10000), change ''CVE-A'' (5 / 10000)] None \<and>
   distinct (map CVE [change ''CVE-B'' (5 / 10000), change ''CVE-A'' (5 / 10000)]) \<and>
   list_all (\<lambda>x. ScoreChange.Date x = time_Now (example (server_Get two_days) rev))
     [change ''CVE-B'' (5 / 10000), change ''CVE-A'' (5 / 10000)]"
proof -
  have a: "range_contract (example (server_Get two_days) rev)"
    by (rule example_contracts) simp
  have b: "sort_contract (example (server_Get two_days) rev)"
    by (rule example_contracts)
  have c: "fst (GetHighestIncreases (example (server_Get two_days) rev) epss_api 1 5) =
     Returns [change ''CVE-B'' (5 / 10000), change ''CVE-A'' (5 / 10000)] None"
    by code_simp
  from entries_distinct_same_date [OF a b c] a b c show ?thesis
    unfolding list_all_iff by blast
qed

theorem highest_increases_descending_witness:
  "range_contract (example (server_Get high_scores) id) \<and>
   sort_contract (example (server_Get high_scores) id) \<and>
   fst (GetHighestIncreases (example (server_Get high_scores) id) epss_api 0 2) =
     Returns [change ''CVE-D'' (97 / 100), change ''CVE-C'' (952 / 1000)] None \<and>
   list_all (\<lambda>c. EPSSScore c \<noteq> NaN) (observed (example (server_Get high_scores) id) epss_api 0) \<and>
   card (ID ` set (observed (example (server_Get high_scores) id) epss_api 0)) = 3 \<and>
   descending [change ''CVE-D'' (97 / 100), change ''CVE-C'' (952 / 1000)] \<and>
   f64_gt (ScoreChange (change ''CVE-D'' (97 / 100))) (ScoreChange (change ''CVE-C'' (952 / 1000))) \<and>
   int (length [change ''CVE-D'' (97 / 100), change ''CVE-C'' (952 / 1000)]) = min 2 3"
proof -
  have a: "range_contract (example (server_Get high_scores) id)"
    by (rule example_contracts) simp
  have b: "sort_contract (example (server_Get high_scores) id)"
    by (rule example_contracts)
  have c: "fst (GetHighestIncreases (example (server_Get high_scores) id) epss_api 0 2) =
     Returns [change ''CVE-D'' (97 / 100), change ''CVE-C'' (952 / 1000)] None"
    by code_simp
  have d: "list_all (\<lambda>c. EPSSScore c \<noteq> NaN)
     (observed (example (server_Get high_scores) id) epss_api 0)"
    by code_simp
  have e: "card (ID ` set (observed (example (server_Get high_scores) id) epss_api 0)) = 3"
    by code_simp
  have k: "f64_gt (ScoreChange (change ''CVE-D'' (97 / 100)))
     (ScoreChange (change ''CVE-C'' (952 / 1000)))"
    by code_simp
  from d have d': "\<forall>c\<in>set (observed (example (server_Get high_scores) id) epss_api 0).
     EPSSScore c \<noteq> NaN"
    by (simp only: list_all_iff)
  from highest_increases_descending [OF a b c d']
  have f: "descending [change ''CVE-D'' (97 / 100), change ''CVE-C'' (952 / 1000)]"
    and g: "int (length [change ''CVE-D'' (97 / 100), change ''CVE-C'' (952 / 1000)]) =
              min 2 (int (card (ID ` set (observed (example (server_Get high_scores) id) epss_api 0))))"
    by blast+
  from g have g': "int (length [change ''CVE-D'' (97 / 100), change ''CVE-C'' (952 / 1000)]) = min 2 3"
    unfolding e by simp
  from a b c d e f k g' show ?thesis by (intro conjI)
qed

theorem single_day_seed_only_witness:
  "range_contract (example (server_Get two_days) id) \<and>
   sort_contract (example (server_Get two_days) id) \<and>
   GetHighestIncreases (example (server_Get two_days) id) epss_api 0 5 =
     (Returns [change ''CVE-A'' (9 / 10000), change ''CVE-B'' (5 / 10000)] None,
      [URL ''https://api.first.org/data/v1/epss'' [(''date'', ''2024-10-18'')]]) \<and>
   fst (day_fetch (example (server_Get two_days) id) epss_api 0 0) = Returns second_day None \<and>
   (\<exists>cveList. fst (day_fetch (example (server_Get two_days) id) epss_api 0 0) =
        Returns cveList None \<and>
      (\<forall>x\<in>set [change ''CVE-A'' (9 / 10000), change ''CVE-B'' (5 / 10000)].
         \<exists>c\<in>set cveList. ID c = CVE x \<and>
           (count_list (map ID cveList) (CVE x) = 1 \<longrightarrow> ScoreChange x = EPSSScore c)))"
proof -
  have a: "range_contract (example (server_Get two_days) id)"
    by (rule example_contracts) simp
  have b: "sort_contract (example (server_Get two_days) id)"
    by (rule example_contracts)
  have c: "GetHighestIncreases (example (server_Get two_days) id) epss_api 0 5 =
     (Returns [change ''CVE-A'' (9 / 10000), change ''CVE-B'' (5 / 10000)] None,
      [URL ''https://api.first.org/data/v1/epss'' [(''date'', ''2024-10-18'')]])"
    by code_simp
  have d: "fst (day_fetch (example (server_Get two_days) id) epss_api 0 0) =
     Returns second_day None"
    by code_simp
  from single_day_seed_only [OF a b c] a b c d show ?thesis by blast
qed

end
